theory Spec2Isabelle
  imports Main "HOL-Library.Sublist"
begin

section \<open>Environment validation: the data model\<close>

text \<open>
  The class \<open>EnvValidation\<close> keeps two private fields, \<open>config_file_filters\<close> (an
  array of \<open>RegExp\<close> objects) and \<open>resolution_paths\<close> (an array of strings). A
  \<open>RegExp\<close> is a mutable object: \<open>test\<close> reads and writes its \<open>lastIndex\<close> when the
  pattern carries the \<open>g\<close> or the \<open>y\<close> flag. An array is a mutable object too: \<open>push\<close>
  changes it in place, \<open>filter\<close> and the literal \<open>[]\<close> make a new one, and the getters
  hand the private arrays out as they are. So the pattern objects and the arrays live in
  stores; a field holds the address of its array, and an array of patterns holds the
  addresses of its pattern objects.
\<close>

type_synonym ref = nat

type_synonym addr = nat

record regexp =
  source :: string
  flags :: string
  lastIndex :: nat

record env_validation =
  this_config_file_filters :: addr
  this_resolution_paths :: addr
  regexp_arrays :: "addr \<Rightarrow> ref list"
  string_arrays :: "addr \<Rightarrow> string list"
  regexps :: "ref \<Rightarrow> regexp"
  next_addr :: addr

text \<open>The two sets: what the arrays of the two fields hold.\<close>

definition config_file_filters :: "env_validation \<Rightarrow> ref list" where
  "config_file_filters \<sigma> = regexp_arrays \<sigma> (this_config_file_filters \<sigma>)"

definition resolution_paths :: "env_validation \<Rightarrow> string list" where
  "resolution_paths \<sigma> = string_arrays \<sigma> (this_resolution_paths \<sigma>)"

text \<open>
  \<open>Array.prototype.push\<close> on the array at an address, and the allocation of a new
  array (by \<open>filter\<close> or by the literal \<open>[]\<close>) at the next free address.
\<close>

definition push_string :: "addr \<Rightarrow> string \<Rightarrow> env_validation \<Rightarrow> env_validation" where
  "push_string a x \<sigma> = \<sigma>\<lparr>string_arrays := (string_arrays \<sigma>)(a := string_arrays \<sigma> a @ [x])\<rparr>"

definition push_regexp :: "addr \<Rightarrow> ref \<Rightarrow> env_validation \<Rightarrow> env_validation" where
  "push_regexp a f \<sigma> = \<sigma>\<lparr>regexp_arrays := (regexp_arrays \<sigma>)(a := regexp_arrays \<sigma> a @ [f])\<rparr>"

definition new_string_array :: "string list \<Rightarrow> env_validation \<Rightarrow> addr \<times> env_validation" where
  "new_string_array xs \<sigma> =
     (next_addr \<sigma>,
      \<sigma>\<lparr>string_arrays := (string_arrays \<sigma>)(next_addr \<sigma> := xs),
        next_addr := Suc (next_addr \<sigma>)\<rparr>)"

definition new_regexp_array :: "ref list \<Rightarrow> env_validation \<Rightarrow> addr \<times> env_validation" where
  "new_regexp_array fs \<sigma> =
     (next_addr \<sigma>,
      \<sigma>\<lparr>regexp_arrays := (regexp_arrays \<sigma>)(next_addr \<sigma> := fs),
        next_addr := Suc (next_addr \<sigma>)\<rparr>)"

text \<open>
  JavaScript values as far as the code looks at them: the export \<open>validationSchema\<close>
  of a configuration module is tested for truthiness only, and the values of the
  environment bag are handed to the schema untouched. Numbers are integers here.
\<close>

datatype js_value = JUndefined | JNull | JBool bool | JNum int | JStr string

type_synonym config = "string \<rightharpoonup> js_value"

text \<open>
  What a module exports under the name \<open>validationSchema\<close>: a plain value
  (\<open>JUndefined\<close> when the export is missing) or a schema object. The schema type
  \<open>'s\<close> is opaque; its only capability is \<open>validate\<close>.
\<close>

datatype 's export = Plain js_value | SchemaObj 's

text \<open>
  The value \<open>require\<close> returns: \<open>module.exports\<close> itself may be \<open>null\<close> or
  \<open>undefined\<close>, on which reading a property throws.
\<close>

datatype 's js_module = NullishExports | Exports "'s export"

datatype joi_error = JoiError (message: string)

datatype exn =
  FilesystemError string
  | ModuleLoadError string
  | TypeError string
  | Error string

text \<open>
  The collaborators the class imports: \<open>path.resolve\<close> with one and with two
  arguments, \<open>fs.readdirSync\<close>, \<open>require\<close>, the pattern matcher behind
  \<open>RegExp.prototype.test\<close> and the schema's \<open>validate\<close>. \<open>regexp_exec src fl s i\<close>
  is the end index of the match the matcher finds in \<open>s\<close> when started at index \<open>i\<close>.
\<close>

record 's world =
  path_resolve :: "string \<Rightarrow> string"
  path_resolve2 :: "string \<Rightarrow> string \<Rightarrow> string"
  readdirSync :: "string \<Rightarrow> exn + string list"
  require :: "string \<Rightarrow> exn + 's js_module"
  regexp_exec :: "string \<Rightarrow> string \<Rightarrow> string \<Rightarrow> nat \<Rightarrow> nat option"
  joi_validate :: "'s \<Rightarrow> config \<Rightarrow> joi_error option"

text \<open>The hook vocabulary of \<open>ENV_VALIDATION_HOOK\<close>, each event with its payload.\<close>

datatype 's hook_event =
  Validate_before config
  | Configuration_resolved_files "string list"
  | Configuration_loaded_schemas "'s export list"
  | Validate_schema 's config "joi_error option"
  | Validate_after config

text \<open>
  What a call does to the outside, in order: the hooks it triggers, the directories it
  lists, the modules it loads and the schemas it evaluates.
\<close>

datatype 's effect =
  Trigger "'s hook_event"
  | Readdir string
  | Require string
  | Validate 's

section \<open>The path set and the filter set\<close>

text \<open>The getters return the private array itself: its address, not a copy.\<close>

definition configFileFilters :: "env_validation \<Rightarrow> addr \<times> env_validation" where
  "configFileFilters \<sigma> = (this_config_file_filters \<sigma>, \<sigma>)"

definition resolutionPaths :: "env_validation \<Rightarrow> addr \<times> env_validation" where
  "resolutionPaths \<sigma> = (this_resolution_paths \<sigma>, \<sigma>)"

definition addResolutionPath :: "string \<Rightarrow> env_validation \<Rightarrow> env_validation" where
  "addResolutionPath path \<sigma> = push_string (this_resolution_paths \<sigma>) path \<sigma>"

definition addResolutionPaths :: "string list \<Rightarrow> env_validation \<Rightarrow> env_validation" where
  "addResolutionPaths paths \<sigma> = foldl (\<lambda>\<tau> path. addResolutionPath path \<tau>) \<sigma> paths"

definition removeResolutionPath :: "string \<Rightarrow> env_validation \<Rightarrow> env_validation" where
  "removeResolutionPath path \<sigma> =
     (case new_string_array (filter (\<lambda>p. p \<noteq> path) (resolution_paths \<sigma>)) \<sigma> of
        (a, \<tau>) \<Rightarrow> \<tau>\<lparr>this_resolution_paths := a\<rparr>)"

definition clearResolutionPaths :: "env_validation \<Rightarrow> env_validation" where
  "clearResolutionPaths \<sigma> =
     (case new_string_array [] \<sigma> of (a, \<tau>) \<Rightarrow> \<tau>\<lparr>this_resolution_paths := a\<rparr>)"

definition addConfigFileFilter :: "ref \<Rightarrow> env_validation \<Rightarrow> env_validation" where
  "addConfigFileFilter f \<sigma> = push_regexp (this_config_file_filters \<sigma>) f \<sigma>"

definition addConfigFileFilters :: "ref list \<Rightarrow> env_validation \<Rightarrow> env_validation" where
  "addConfigFileFilters fs \<sigma> = foldl (\<lambda>\<tau> f. addConfigFileFilter f \<tau>) \<sigma> fs"

definition removeConfigFileFilter :: "ref \<Rightarrow> env_validation \<Rightarrow> env_validation" where
  "removeConfigFileFilter f' \<sigma> =
     (case new_regexp_array
             (filter (\<lambda>f. source (regexps \<sigma> f) \<noteq> source (regexps \<sigma> f'))
                (config_file_filters \<sigma>)) \<sigma> of
        (a, \<tau>) \<Rightarrow> \<tau>\<lparr>this_config_file_filters := a\<rparr>)"

definition clearConfigFileFilters :: "env_validation \<Rightarrow> env_validation" where
  "clearConfigFileFilters \<sigma> =
     (case new_regexp_array [] \<sigma> of (a, \<tau>) \<Rightarrow> \<tau>\<lparr>this_config_file_filters := a\<rparr>)"

text \<open>
  The constructor starts from two new empty arrays and seeds one filter, a pattern
  without flags for the names that end in \<open>.config.ts\<close> or \<open>.config.js\<close> (a new
  pattern object, at address 0), and two paths: the directory of the class and its
  parent. In the pattern text each of the two dots is escaped by a backslash, the
  character \<open>0x5C\<close>.
\<close>

definition default_filter_source :: string where
  "default_filter_source = CHR 0x5C # ''.config'' @ CHR 0x5C # ''.(ts|js)$''"

definition new_EnvValidation :: "string \<Rightarrow> string \<Rightarrow> env_validation" where
  "new_EnvValidation dirname parent =
     addResolutionPaths [dirname, parent]
       (addConfigFileFilters [0]
          \<lparr>this_config_file_filters = 0,
           this_resolution_paths = 1,
           regexp_arrays = (\<lambda>a. []),
           string_arrays = (\<lambda>a. []),
           regexps = (\<lambda>f. \<lparr>source = default_filter_source, flags = [], lastIndex = 0\<rparr>),
           next_addr = 2\<rparr>)"

section \<open>Matching file names\<close>

text \<open>
  \<open>RegExp.prototype.test\<close>: a pattern with the \<open>g\<close> or the \<open>y\<close> flag starts at its
  \<open>lastIndex\<close>, stores the end of the match there when it succeeds and resets it to 0
  when it fails; a pattern with neither flag starts at 0 and leaves \<open>lastIndex\<close> alone.
\<close>

definition is_stateful :: "regexp \<Rightarrow> bool" where
  "is_stateful r = (CHR ''g'' \<in> set (flags r) \<or> CHR ''y'' \<in> set (flags r))"

definition set_lastIndex :: "ref \<Rightarrow> nat \<Rightarrow> env_validation \<Rightarrow> env_validation" where
  "set_lastIndex f i \<sigma> =
     (if is_stateful (regexps \<sigma> f)
      then \<sigma>\<lparr>regexps := (regexps \<sigma>)(f := (regexps \<sigma> f)\<lparr>lastIndex := i\<rparr>)\<rparr>
      else \<sigma>)"

definition RegExp_test ::
  "'s world \<Rightarrow> ref \<Rightarrow> string \<Rightarrow> env_validation \<Rightarrow> bool \<times> env_validation" where
  "RegExp_test W f file \<sigma> =
     (let r = regexps \<sigma> f;
          start = (if is_stateful r then lastIndex r else 0)
      in case (if length file < start then None
               else regexp_exec W (source r) (flags r) file start) of
           None \<Rightarrow> (False, set_lastIndex f 0 \<sigma>)
         | Some e \<Rightarrow> (True, set_lastIndex f e \<sigma>))"

text \<open>\<open>Array.prototype.some\<close> over the filters: it stops at the first filter that matches.\<close>

fun some_test ::
  "'s world \<Rightarrow> ref list \<Rightarrow> string \<Rightarrow> env_validation \<Rightarrow> bool \<times> env_validation" where
  "some_test W [] file \<sigma> = (False, \<sigma>)"
| "some_test W (f # fs) file \<sigma> =
     (case RegExp_test W f file \<sigma> of
        (True, \<sigma>') \<Rightarrow> (True, \<sigma>')
      | (False, \<sigma>') \<Rightarrow> some_test W fs file \<sigma>')"

definition passesConfigFileFilters ::
  "'s world \<Rightarrow> string \<Rightarrow> env_validation \<Rightarrow> bool \<times> env_validation" where
  "passesConfigFileFilters W file \<sigma> = some_test W (config_file_filters \<sigma>) file \<sigma>"

text \<open>\<open>readdirSync(cwd).filter(value => this.passesConfigFileFilters(value))\<close>\<close>

fun filter_entries ::
  "'s world \<Rightarrow> string list \<Rightarrow> env_validation \<Rightarrow> string list \<times> env_validation" where
  "filter_entries W [] \<sigma> = ([], \<sigma>)"
| "filter_entries W (v # vs) \<sigma> =
     (case passesConfigFileFilters W v \<sigma> of
        (b, \<sigma>1) \<Rightarrow>
          (case filter_entries W vs \<sigma>1 of
             (rest, \<sigma>2) \<Rightarrow> (if b then v # rest else rest, \<sigma>2)))"

section \<open>Resolving the schemas\<close>

text \<open>
  Modelled from the spec: the hook registry \<open>Hookable\<close> is imported from another
  library. Its \<open>trigger(eventKind, payload)\<close> broadcasts the event to the registered
  observers; the model records that the event was fired, and observers only watch.
\<close>

definition trigger :: "'s hook_event \<Rightarrow> 's effect list" where
  "trigger ev = [Trigger ev]"

text \<open>
  Modelled from the spec: \<open>tap(value, callback)\<close> is imported from the same library.
  It runs the callback on the value (here: emitting the second hook of a path) and
  returns the value.
\<close>

definition tap :: "'a \<Rightarrow> ('a \<Rightarrow> 'e list) \<Rightarrow> 'a \<times> 'e list" where
  "tap v callback = (v, callback v)"

text \<open>
  \<open>config_files.map(file => require(resolve(cwd, file)))\<close>: the modules are loaded one
  after the other, and the first one that throws ends the call.
\<close>

fun require_all ::
  "'s world \<Rightarrow> string \<Rightarrow> string list \<Rightarrow> (exn + 's js_module list) \<times> 's effect list" where
  "require_all W cwd [] = (Inr [], [])"
| "require_all W cwd (file # files) =
     (let p = path_resolve2 W cwd file in
      case require W p of
        Inl e \<Rightarrow> (Inl e, [Require p])
      | Inr m \<Rightarrow>
          (case require_all W cwd files of
             (Inl e, es) \<Rightarrow> (Inl e, Require p # es)
           | (Inr ms, es) \<Rightarrow> (Inr (m # ms), Require p # es)))"

fun truthy_value :: "js_value \<Rightarrow> bool" where
  "truthy_value JUndefined = False"
| "truthy_value JNull = False"
| "truthy_value (JBool b) = b"
| "truthy_value (JNum n) = (n \<noteq> 0)"
| "truthy_value (JStr s) = (s \<noteq> [])"

fun truthy :: "'s export \<Rightarrow> bool" where
  "truthy (Plain v) = truthy_value v"
| "truthy (SchemaObj s) = True"

text \<open>\<open>config => config.validationSchema || null\<close>\<close>

fun validationSchema_or_null :: "'s js_module \<Rightarrow> exn + 's export" where
  "validationSchema_or_null NullishExports =
     Inl (TypeError ''Cannot read properties of null or undefined'')"
| "validationSchema_or_null (Exports v) = Inr (if truthy v then v else Plain JNull)"

fun map_validationSchema :: "'s js_module list \<Rightarrow> exn + 's export list" where
  "map_validationSchema [] = Inr []"
| "map_validationSchema (m # ms) =
     (case validationSchema_or_null m of
        Inl e \<Rightarrow> Inl e
      | Inr v \<Rightarrow>
          (case map_validationSchema ms of
             Inl e \<Rightarrow> Inl e
           | Inr vs \<Rightarrow> Inr (v # vs)))"

text \<open>The callback of \<open>this.resolution_paths.map\<close>: one resolution path.\<close>

definition resolve_path ::
  "'s world \<Rightarrow> string \<Rightarrow> env_validation
     \<Rightarrow> (exn + 's export list) \<times> env_validation \<times> 's effect list" where
  "resolve_path W path \<sigma> =
     (let cwd = path_resolve W path in
      case readdirSync W cwd of
        Inl e \<Rightarrow> (Inl e, \<sigma>, [Readdir cwd])
      | Inr entries \<Rightarrow>
          (case filter_entries W entries \<sigma> of
             (config_files, \<sigma>1) \<Rightarrow>
               (let ev1 = trigger (Configuration_resolved_files config_files) in
                case require_all W cwd config_files of
                  (Inl e, es) \<Rightarrow> (Inl e, \<sigma>1, Readdir cwd # ev1 @ es)
                | (Inr mods, es) \<Rightarrow>
                    (case map_validationSchema mods of
                       Inl e \<Rightarrow> (Inl e, \<sigma>1, Readdir cwd # ev1 @ es)
                     | Inr vals \<Rightarrow>
                         (case tap (filter (\<lambda>schema. schema \<noteq> Plain JNull) vals)
                                 (\<lambda>schemas. trigger (Configuration_loaded_schemas schemas)) of
                            (schemas, ev2) \<Rightarrow>
                              (Inr schemas, \<sigma>1, Readdir cwd # ev1 @ es @ ev2))))))"

fun map_resolve_path ::
  "'s world \<Rightarrow> string list \<Rightarrow> env_validation
     \<Rightarrow> (exn + 's export list list) \<times> env_validation \<times> 's effect list" where
  "map_resolve_path W [] \<sigma> = (Inr [], \<sigma>, [])"
| "map_resolve_path W (path # paths) \<sigma> =
     (case resolve_path W path \<sigma> of
        (Inl e, \<sigma>1, es) \<Rightarrow> (Inl e, \<sigma>1, es)
      | (Inr schemas, \<sigma>1, es) \<Rightarrow>
          (case map_resolve_path W paths \<sigma>1 of
             (Inl e, \<sigma>2, es') \<Rightarrow> (Inl e, \<sigma>2, es @ es')
           | (Inr rest, \<sigma>2, es') \<Rightarrow> (Inr (schemas # rest), \<sigma>2, es @ es')))"

text \<open>\<open>this.resolution_paths.map(...).flat()\<close>\<close>

definition resolveConfigValidationSchema ::
  "'s world \<Rightarrow> env_validation \<Rightarrow> (exn + 's export list) \<times> env_validation \<times> 's effect list" where
  "resolveConfigValidationSchema W \<sigma> =
     (case map_resolve_path W (resolution_paths \<sigma>) \<sigma> of
        (Inl e, \<sigma>', es) \<Rightarrow> (Inl e, \<sigma>', es)
      | (Inr per_path, \<sigma>', es) \<Rightarrow> (Inr (concat per_path), \<sigma>', es))"

section \<open>Validating the environment\<close>

text \<open>
  The body of the \<open>forEach\<close> in \<open>validateEnv\<close>, run over the resolved list. An entry
  that is no schema object has no \<open>validate\<close> method, and calling it throws.
\<close>

fun validate_each ::
  "'s world \<Rightarrow> config \<Rightarrow> 's export list \<Rightarrow> (exn + unit) \<times> 's effect list" where
  "validate_each W cfg [] = (Inr (), [])"
| "validate_each W cfg (Plain v # rest) =
     (Inl (TypeError ''schema.validate is not a function''), [])"
| "validate_each W cfg (SchemaObj schema # rest) =
     (let error = joi_validate W schema cfg;
          es = Validate schema # trigger (Validate_schema schema cfg error)
      in case error of
           Some err \<Rightarrow> (Inl (Error (''Config validation error: '' @ message err)), es)
         | None \<Rightarrow>
             (case validate_each W cfg rest of
                (r, es') \<Rightarrow> (r, es @ es')))"

definition validateEnv ::
  "'s world \<Rightarrow> config \<Rightarrow> env_validation
     \<Rightarrow> (exn + config) \<times> env_validation \<times> 's effect list" where
  "validateEnv W cfg \<sigma> =
     (let ev0 = trigger (Validate_before cfg) in
      case resolveConfigValidationSchema W \<sigma> of
        (Inl e, \<sigma>1, es) \<Rightarrow> (Inl e, \<sigma>1, ev0 @ es)
      | (Inr schemas, \<sigma>1, es) \<Rightarrow>
          (case validate_each W cfg schemas of
             (Inl e, es2) \<Rightarrow> (Inl e, \<sigma>1, ev0 @ es @ es2)
           | (Inr u, es2) \<Rightarrow>
               (Inr cfg, \<sigma>1, ev0 @ es @ es2 @ trigger (Validate_after cfg))))"

section \<open>Reading the effects of a call\<close>

fun is_validate_schema :: "'s effect \<Rightarrow> bool" where
  "is_validate_schema (Trigger (Validate_schema s c e)) = True"
| "is_validate_schema _ = False"

fun is_validate_after :: "'s effect \<Rightarrow> bool" where
  "is_validate_after (Trigger (Validate_after c)) = True"
| "is_validate_after _ = False"

fun is_validate_call :: "'s effect \<Rightarrow> bool" where
  "is_validate_call (Validate s) = True"
| "is_validate_call _ = False"

fun is_require :: "'s effect \<Rightarrow> bool" where
  "is_require (Require p) = True"
| "is_require _ = False"

text \<open>The payloads of the \<open>configuration_resolved_files\<close> events, in order.\<close>

fun resolved_files_payloads :: "'s effect list \<Rightarrow> string list list" where
  "resolved_files_payloads [] = []"
| "resolved_files_payloads (Trigger (Configuration_resolved_files files) # es) =
     files # resolved_files_payloads es"
| "resolved_files_payloads (e # es) = resolved_files_payloads es"

text \<open>The effects of discovery: listings, module loads and the two discovery hooks.\<close>

fun is_discovery :: "'s effect \<Rightarrow> bool" where
  "is_discovery (Readdir d) = True"
| "is_discovery (Require p) = True"
| "is_discovery (Trigger (Configuration_resolved_files files)) = True"
| "is_discovery (Trigger (Configuration_loaded_schemas schemas)) = True"
| "is_discovery _ = False"

text \<open>A schema passes when its \<open>validate\<close> reports no error.\<close>

fun passes :: "'s world \<Rightarrow> config \<Rightarrow> 's export \<Rightarrow> bool" where
  "passes W cfg (SchemaObj s) = (joi_validate W s cfg = None)"
| "passes W cfg (Plain v) = False"

text \<open>The effects and the outcome of a call, and the state it leaves.\<close>

definition outcome :: "'r \<times> env_validation \<times> 'e list \<Rightarrow> 'r" where
  "outcome res = fst res"

definition state_after :: "'r \<times> env_validation \<times> 'e list \<Rightarrow> env_validation" where
  "state_after res = fst (snd res)"

definition effects :: "'r \<times> env_validation \<times> 'e list \<Rightarrow> 'e list" where
  "effects res = snd (snd res)"

text \<open>The schema of the last \<open>validate_schema\<close> event: the schema a failed call failed on.\<close>

fun last_checked :: "'s effect list \<Rightarrow> 's option" where
  "last_checked [] = None"
| "last_checked (Trigger (Validate_schema s c e) # es) =
     (case last_checked es of None \<Rightarrow> Some s | Some s' \<Rightarrow> Some s')"
| "last_checked (e # es) = last_checked es"

section \<open>What the resolution is meant to compute\<close>

text \<open>
  A pattern matches a file name when a fresh pattern object (\<open>lastIndex = 0\<close>) tests
  true on it.
\<close>

definition pattern_matches :: "'s world \<Rightarrow> regexp \<Rightarrow> string \<Rightarrow> bool" where
  "pattern_matches W r file = (regexp_exec W (source r) (flags r) file 0 \<noteq> None)"

definition matches_some_filter :: "'s world \<Rightarrow> env_validation \<Rightarrow> string \<Rightarrow> bool" where
  "matches_some_filter W \<sigma> file =
     list_ex (\<lambda>f. pattern_matches W (regexps \<sigma> f) file) (config_file_filters \<sigma>)"

definition stateless_filters :: "env_validation \<Rightarrow> bool" where
  "stateless_filters \<sigma> = list_all (\<lambda>f. \<not> is_stateful (regexps \<sigma> f)) (config_file_filters \<sigma>)"

text \<open>
  Between two states no field was assigned and no array was changed or made, and every
  pattern object has kept its pattern text and its flags.
\<close>

definition same_sets :: "env_validation \<Rightarrow> env_validation \<Rightarrow> bool" where
  "same_sets \<sigma> \<tau> =
     (this_config_file_filters \<tau> = this_config_file_filters \<sigma>
      \<and> this_resolution_paths \<tau> = this_resolution_paths \<sigma>
      \<and> regexp_arrays \<tau> = regexp_arrays \<sigma>
      \<and> string_arrays \<tau> = string_arrays \<sigma>
      \<and> next_addr \<tau> = next_addr \<sigma>
      \<and> (\<forall>f. source (regexps \<tau> f) = source (regexps \<sigma> f)
             \<and> flags (regexps \<tau> f) = flags (regexps \<sigma> f)))"

text \<open>
  The public operations of an instance, and the state each leaves. The mutators are the
  eight add, remove and clear operations.
\<close>

datatype operation =
  Call_addResolutionPath string
  | Call_addResolutionPaths "string list"
  | Call_removeResolutionPath string
  | Call_clearResolutionPaths
  | Call_addConfigFileFilter ref
  | Call_addConfigFileFilters "ref list"
  | Call_removeConfigFileFilter ref
  | Call_clearConfigFileFilters
  | Call_validateEnv config
  | Get_configFileFilters
  | Get_resolutionPaths

fun perform :: "'s world \<Rightarrow> operation \<Rightarrow> env_validation \<Rightarrow> env_validation" where
  "perform W (Call_addResolutionPath path) \<sigma> = addResolutionPath path \<sigma>"
| "perform W (Call_addResolutionPaths paths) \<sigma> = addResolutionPaths paths \<sigma>"
| "perform W (Call_removeResolutionPath path) \<sigma> = removeResolutionPath path \<sigma>"
| "perform W Call_clearResolutionPaths \<sigma> = clearResolutionPaths \<sigma>"
| "perform W (Call_addConfigFileFilter f) \<sigma> = addConfigFileFilter f \<sigma>"
| "perform W (Call_addConfigFileFilters fs) \<sigma> = addConfigFileFilters fs \<sigma>"
| "perform W (Call_removeConfigFileFilter f) \<sigma> = removeConfigFileFilter f \<sigma>"
| "perform W Call_clearConfigFileFilters \<sigma> = clearConfigFileFilters \<sigma>"
| "perform W (Call_validateEnv cfg) \<sigma> = state_after (validateEnv W cfg \<sigma>)"
| "perform W Get_configFileFilters \<sigma> = snd (configFileFilters \<sigma>)"
| "perform W Get_resolutionPaths \<sigma> = snd (resolutionPaths \<sigma>)"

fun is_mutator :: "operation \<Rightarrow> bool" where
  "is_mutator (Call_validateEnv cfg) = False"
| "is_mutator Get_configFileFilters = False"
| "is_mutator Get_resolutionPaths = False"
| "is_mutator _ = True"

definition perform_all :: "'s world \<Rightarrow> operation list \<Rightarrow> env_validation \<Rightarrow> env_validation" where
  "perform_all W ops \<sigma> = foldl (\<lambda>\<tau> op. perform W op \<tau>) \<sigma> ops"

text \<open>
  The modules of the matching entries that get loaded: those that load, up to the first
  whose loading throws, and that one.
\<close>

definition loads :: "'s world \<Rightarrow> string \<Rightarrow> string \<Rightarrow> bool" where
  "loads W cwd v = (\<not> isl (require W (path_resolve2 W cwd v)))"

definition upto_first_throw :: "'s world \<Rightarrow> string \<Rightarrow> string list \<Rightarrow> string list" where
  "upto_first_throw W cwd vs =
     takeWhile (loads W cwd) vs @ take 1 (dropWhile (loads W cwd) vs)"

text \<open>
  What one configuration file contributes to the schema list: its \<open>validationSchema\<close>
  export when that is truthy, nothing otherwise.
\<close>

definition module_schema :: "'s world \<Rightarrow> string \<Rightarrow> string \<Rightarrow> 's export list" where
  "module_schema W cwd file =
     (case require W (path_resolve2 W cwd file) of
        Inr (Exports v) \<Rightarrow> (if truthy v then [v] else [])
      | _ \<Rightarrow> [])"

text \<open>
  The files selected in each resolution path, in the stored order of the paths: the
  directory and the entries of its listing that passed the filters.
\<close>

fun selected_files ::
  "'s world \<Rightarrow> string list \<Rightarrow> env_validation \<Rightarrow> (string \<times> string list) list" where
  "selected_files W [] \<sigma> = []"
| "selected_files W (path # paths) \<sigma> =
     (case readdirSync W (path_resolve W path) of
        Inl e \<Rightarrow> []
      | Inr entries \<Rightarrow>
          (case filter_entries W entries \<sigma> of
             (files, \<sigma>1) \<Rightarrow> (path_resolve W path, files) # selected_files W paths \<sigma>1))"

text \<open>
  The schema list as the specification words it: the concatenation, over the resolution
  paths in order, of each path's schemas in the order of its selected files.
\<close>

definition concatenated_schemas :: "'s world \<Rightarrow> env_validation \<Rightarrow> 's export list" where
  "concatenated_schemas W \<sigma> =
     concat (map (\<lambda>(cwd, files). concat (map (module_schema W cwd) files))
               (selected_files W (resolution_paths \<sigma>) \<sigma>))"

fun listing_of :: "'s world \<Rightarrow> string \<Rightarrow> string list" where
  "listing_of W cwd = (case readdirSync W cwd of Inl e \<Rightarrow> [] | Inr entries \<Rightarrow> entries)"

section \<open>An application\<close>

text \<open>
  Four directories: \<open>/app/config\<close> holds two configuration modules with a schema, one
  without and a file that is no configuration module; \<open>/app/services\<close> and
  \<open>/app/workers\<close> hold one configuration module each; \<open>/app/plugins\<close> holds a
  module that throws when it is loaded, and a second module after it.
\<close>

definition app_readdir :: "string \<Rightarrow> exn + string list" where
  "app_readdir dir =
     (if dir = ''/app/config''
      then Inr [''auth.config.ts'', ''db.config.ts'', ''empty.config.ts'', ''readme.md'']
      else if dir = ''/app/services'' then Inr [''cache.config.ts'']
      else if dir = ''/app/workers'' then Inr [''queue.config.ts'']
      else if dir = ''/app/plugins'' then Inr [''broken.config.ts'', ''mail.config.ts'']
      else Inl (FilesystemError (''ENOENT: no such file or directory, scandir '' @ dir)))"

datatype app_schema = DbSchema | AuthSchema | CacheSchema | QueueSchema | MailSchema

definition app_require :: "string \<Rightarrow> exn + app_schema js_module" where
  "app_require file =
     (if file = ''/app/config/auth.config.ts'' then Inr (Exports (SchemaObj AuthSchema))
      else if file = ''/app/config/db.config.ts'' then Inr (Exports (SchemaObj DbSchema))
      else if file = ''/app/config/empty.config.ts'' then Inr (Exports (Plain JUndefined))
      else if file = ''/app/services/cache.config.ts'' then Inr (Exports (SchemaObj CacheSchema))
      else if file = ''/app/workers/queue.config.ts'' then Inr (Exports (SchemaObj QueueSchema))
      else if file = ''/app/plugins/broken.config.ts''
        then Inl (ModuleLoadError ''SyntaxError: Unexpected token'')
      else if file = ''/app/plugins/mail.config.ts'' then Inr (Exports (SchemaObj MailSchema))
      else Inl (ModuleLoadError (''Cannot find module '' @ file)))"

text \<open>
  The matcher on the one pattern the application uses, the default one: the only
  possible match is the suffix \<open>.config.ts\<close> or \<open>.config.js\<close> of ten characters, found
  from any start index at or before it, and it ends at the end of the name.
\<close>

definition app_regexp_exec :: "string \<Rightarrow> string \<Rightarrow> string \<Rightarrow> nat \<Rightarrow> nat option" where
  "app_regexp_exec src fl s i =
     (if src = default_filter_source \<and> i + 10 \<le> length s
         \<and> (drop (length s - 10) s = ''.config.ts'' \<or> drop (length s - 10) s = ''.config.js'')
      then Some (length s) else None)"

text \<open>
  The schema of \<open>db.config.ts\<close> wants \<open>DB_PORT\<close> to be a number from 1024 on, the
  schema of \<open>auth.config.ts\<close> wants \<open>JWT_SECRET\<close> to be a string that is not empty,
  the schemas of \<open>cache.config.ts\<close> and of \<open>queue.config.ts\<close> both want a
  \<open>PORT\<close>, and the schema of \<open>mail.config.ts\<close> wants an \<open>SMTP_HOST\<close>.
\<close>

fun app_validate :: "app_schema \<Rightarrow> config \<Rightarrow> joi_error option" where
  "app_validate DbSchema cfg =
     (case cfg ''DB_PORT'' of
        Some (JNum n) \<Rightarrow>
          (if n < 1024 then Some (JoiError ''DB_PORT must be greater than or equal to 1024'')
           else None)
      | _ \<Rightarrow> Some (JoiError ''DB_PORT is required''))"
| "app_validate AuthSchema cfg =
     (case cfg ''JWT_SECRET'' of
        Some (JStr v) \<Rightarrow>
          (if v = [] then Some (JoiError ''JWT_SECRET is not allowed to be empty'') else None)
      | _ \<Rightarrow> Some (JoiError ''JWT_SECRET is required''))"
| "app_validate CacheSchema cfg =
     (case cfg ''PORT'' of
        Some v \<Rightarrow> None
      | None \<Rightarrow> Some (JoiError ''PORT is required''))"
| "app_validate QueueSchema cfg =
     (case cfg ''PORT'' of
        Some v \<Rightarrow> None
      | None \<Rightarrow> Some (JoiError ''PORT is required''))"
| "app_validate MailSchema cfg =
     (case cfg ''SMTP_HOST'' of
        Some v \<Rightarrow> None
      | None \<Rightarrow> Some (JoiError ''SMTP_HOST is required''))"

definition W_app :: "app_schema world" where
  "W_app =
     \<lparr>path_resolve = (\<lambda>p. p),
      path_resolve2 = (\<lambda>cwd file. cwd @ ''/'' @ file),
      readdirSync = app_readdir,
      require = app_require,
      regexp_exec = app_regexp_exec,
      joi_validate = app_validate\<rparr>"

definition config_pattern :: "string \<Rightarrow> regexp" where
  "config_pattern fl = \<lparr>source = default_filter_source, flags = fl, lastIndex = 0\<rparr>"

text \<open>
  An instance with one filter, the pattern object at address 0, carrying the flags
  \<open>fl\<close>. Address 1 holds a second pattern object with the same text. The array of
  the filters is at address 0, the array of the paths at address 1.
\<close>

definition app_state :: "string \<Rightarrow> string list \<Rightarrow> env_validation" where
  "app_state fl paths =
     \<lparr>this_config_file_filters = 0,
      this_resolution_paths = 1,
      regexp_arrays = (\<lambda>a. if a = 0 then [0] else []),
      string_arrays = (\<lambda>a. if a = 1 then paths else []),
      regexps = (\<lambda>f. config_pattern (if f = 0 then fl else [])),
      next_addr = 2\<rparr>"

definition cfg_good :: config where
  "cfg_good = [''DB_PORT'' \<mapsto> JNum 5432, ''JWT_SECRET'' \<mapsto> JStr ''x'']"

definition cfg_low_port :: config where
  "cfg_low_port = [''DB_PORT'' \<mapsto> JNum 80, ''JWT_SECRET'' \<mapsto> JStr ''x'']"

section \<open>A call keeps the two sets\<close>

lemma same_sets_refl: "same_sets \<sigma> \<sigma>"
  by (simp add: same_sets_def)

lemma same_sets_trans: "same_sets \<sigma> \<tau> \<Longrightarrow> same_sets \<tau> \<upsilon> \<Longrightarrow> same_sets \<sigma> \<upsilon>"
  by (simp add: same_sets_def)

lemma set_lastIndex_same: "same_sets \<sigma> (set_lastIndex f i \<sigma>)"
  by (simp add: same_sets_def set_lastIndex_def)

lemma RegExp_test_same: "same_sets \<sigma> (snd (RegExp_test W f v \<sigma>))"
  by (simp add: RegExp_test_def Let_def set_lastIndex_same split: option.split)

lemma some_test_same: "same_sets \<sigma> (snd (some_test W fs v \<sigma>))"
proof (induction fs arbitrary: \<sigma>)
  case Nil
  show ?case by (simp add: same_sets_refl)
next
  case (Cons f fs)
  obtain b \<tau> where t: "RegExp_test W f v \<sigma> = (b, \<tau>)"
    by (cases "RegExp_test W f v \<sigma>")
  have st: "same_sets \<sigma> \<tau>"
    using RegExp_test_same [of \<sigma> W f v] t by simp
  show ?case
  proof (cases b)
    case True
    with t st show ?thesis by simp
  next
    case False
    with t have "snd (some_test W (f # fs) v \<sigma>) = snd (some_test W fs v \<tau>)"
      by simp
    with st Cons.IH [of \<tau>] show ?thesis
      by (auto intro: same_sets_trans)
  qed
qed

lemma passesConfigFileFilters_same: "same_sets \<sigma> (snd (passesConfigFileFilters W v \<sigma>))"
  by (simp add: passesConfigFileFilters_def some_test_same)

lemma filter_entries_same: "same_sets \<sigma> (snd (filter_entries W vs \<sigma>))"
proof (induction vs arbitrary: \<sigma>)
  case Nil
  show ?case by (simp add: same_sets_refl)
next
  case (Cons v vs)
  obtain b \<tau> where p: "passesConfigFileFilters W v \<sigma> = (b, \<tau>)"
    by (cases "passesConfigFileFilters W v \<sigma>")
  have st: "same_sets \<sigma> \<tau>"
    using passesConfigFileFilters_same [of \<sigma> W v] p by simp
  have "snd (filter_entries W (v # vs) \<sigma>) = snd (filter_entries W vs \<tau>)"
    using p by (simp split: prod.split)
  with st Cons.IH [of \<tau>] show ?case
    by (auto intro: same_sets_trans)
qed

lemma resolve_path_state:
  "state_after (resolve_path W path \<sigma>) =
     (case readdirSync W (path_resolve W path) of
        Inl e \<Rightarrow> \<sigma>
      | Inr entries \<Rightarrow> snd (filter_entries W entries \<sigma>))"
  by (simp add: resolve_path_def state_after_def Let_def tap_def split: sum.split prod.split)

lemma resolve_path_same: "same_sets \<sigma> (state_after (resolve_path W path \<sigma>))"
  by (simp add: resolve_path_state filter_entries_same same_sets_refl split: sum.split)

lemma map_resolve_path_same: "same_sets \<sigma> (state_after (map_resolve_path W paths \<sigma>))"
proof (induction paths arbitrary: \<sigma>)
  case Nil
  show ?case by (simp add: state_after_def same_sets_refl)
next
  case (Cons path paths)
  obtain r \<tau> es where rp: "resolve_path W path \<sigma> = (r, \<tau>, es)"
    by (cases "resolve_path W path \<sigma>")
  have st: "same_sets \<sigma> \<tau>"
    using resolve_path_same [of \<sigma> W path] rp by (simp add: state_after_def)
  show ?case
  proof (cases r)
    case (Inl e)
    with rp st show ?thesis by (simp add: state_after_def)
  next
    case (Inr schemas)
    with rp have "state_after (map_resolve_path W (path # paths) \<sigma>)
                  = state_after (map_resolve_path W paths \<tau>)"
      by (simp add: state_after_def split: prod.split sum.split)
    with st Cons.IH [of \<tau>] show ?thesis
      by (auto intro: same_sets_trans)
  qed
qed

lemma resolveConfigValidationSchema_same:
  "same_sets \<sigma> (state_after (resolveConfigValidationSchema W \<sigma>))"
proof -
  have "state_after (resolveConfigValidationSchema W \<sigma>)
        = state_after (map_resolve_path W (resolution_paths \<sigma>) \<sigma>)"
    by (simp add: resolveConfigValidationSchema_def state_after_def split: prod.split sum.split)
  then show ?thesis
    by (simp add: map_resolve_path_same)
qed

lemma validateEnv_state:
  "state_after (validateEnv W cfg \<sigma>) = state_after (resolveConfigValidationSchema W \<sigma>)"
  by (simp add: validateEnv_def state_after_def Let_def split: prod.split sum.split)

section \<open>Discovery emits no validation event\<close>

lemma is_discovery_not_validation:
  "is_discovery e \<Longrightarrow> \<not> is_validate_schema e \<and> \<not> is_validate_after e \<and> \<not> is_validate_call e"
  by (induction e rule: is_discovery.induct) auto

lemma require_all_discovery: "list_all is_discovery (snd (require_all W cwd files))"
  by (induction files) (auto simp: Let_def split: sum.split prod.split)

lemma resolve_path_discovery: "list_all is_discovery (effects (resolve_path W path \<sigma>))"
proof (cases "readdirSync W (path_resolve W path)")
  case (Inl e)
  then show ?thesis
    by (simp add: resolve_path_def effects_def)
next
  case (Inr entries)
  obtain files \<tau> where fe: "filter_entries W entries \<sigma> = (files, \<tau>)"
    by (cases "filter_entries W entries \<sigma>")
  obtain r es where ra: "require_all W (path_resolve W path) files = (r, es)"
    by (cases "require_all W (path_resolve W path) files")
  have "list_all is_discovery es"
    using require_all_discovery [of W "path_resolve W path" files] ra by simp
  with Inr fe ra show ?thesis
    by (simp add: resolve_path_def effects_def Let_def tap_def trigger_def split: sum.split)
qed

lemma map_resolve_path_discovery:
  "list_all is_discovery (effects (map_resolve_path W paths \<sigma>))"
proof (induction paths arbitrary: \<sigma>)
  case Nil
  show ?case by (simp add: effects_def)
next
  case (Cons path paths)
  obtain r \<tau> es where rp: "resolve_path W path \<sigma> = (r, \<tau>, es)"
    by (cases "resolve_path W path \<sigma>")
  have es: "list_all is_discovery es"
    using resolve_path_discovery [of W path \<sigma>] rp by (simp add: effects_def)
  show ?case
  proof (cases r)
    case (Inl e)
    with rp es show ?thesis by (simp add: effects_def)
  next
    case (Inr schemas)
    with rp have "effects (map_resolve_path W (path # paths) \<sigma>)
                  = es @ effects (map_resolve_path W paths \<tau>)"
      by (simp add: effects_def split: prod.split sum.split)
    with es Cons.IH [of \<tau>] show ?thesis
      by simp
  qed
qed

lemma resolve_discovery:
  "list_all is_discovery (effects (resolveConfigValidationSchema W \<sigma>))"
proof -
  have "effects (resolveConfigValidationSchema W \<sigma>)
        = effects (map_resolve_path W (resolution_paths \<sigma>) \<sigma>)"
    by (simp add: resolveConfigValidationSchema_def effects_def split: prod.split sum.split)
  then show ?thesis
    by (simp add: map_resolve_path_discovery)
qed

lemma discovery_no_validation:
  assumes "list_all is_discovery es"
  shows "filter is_validate_schema es = []"
    and "filter is_validate_after es = []"
    and "filter is_validate_call es = []"
  using assms is_discovery_not_validation
  by (induction es) auto

section \<open>The loop over the schemas\<close>

lemma validate_each_all_pass:
  "list_all (passes W cfg) xs \<Longrightarrow> fst (validate_each W cfg xs) = Inr ()"
  by (induction W cfg xs rule: validate_each.induct) (auto simp: Let_def split: prod.split)

lemma validate_each_not_all_pass:
  "\<not> list_all (passes W cfg) xs \<Longrightarrow> isl (fst (validate_each W cfg xs))"
  by (induction W cfg xs rule: validate_each.induct) (auto simp: Let_def split: prod.split option.split)

lemma validate_each_no_after:
  "filter is_validate_after (snd (validate_each W cfg xs)) = []"
  by (induction W cfg xs rule: validate_each.induct)
     (auto simp: Let_def trigger_def split: prod.split option.split)

lemma validate_each_first_failure:
  assumes "k < length ss"
    and "\<forall>j<k. joi_validate W (ss ! j) cfg = None"
    and "joi_validate W (ss ! k) cfg = Some err"
  shows "validate_each W cfg (map SchemaObj ss) =
           (Inl (Error (''Config validation error: '' @ message err)),
            concat (map (\<lambda>s. [Validate s, Trigger (Validate_schema s cfg None)]) (take k ss))
              @ [Validate (ss ! k), Trigger (Validate_schema (ss ! k) cfg (Some err))])"
  using assms
proof (induction ss arbitrary: k)
  case Nil
  then show ?case by simp
next
  case (Cons s ss)
  show ?case
  proof (cases k)
    case 0
    with Cons.prems show ?thesis
      by (simp add: Let_def trigger_def)
  next
    case (Suc n)
    have s: "joi_validate W s cfg = None"
      using Cons.prems(2) Suc by auto
    have n: "n < length ss" "\<forall>j<n. joi_validate W (ss ! j) cfg = None"
      "joi_validate W (ss ! n) cfg = Some err"
      using Cons.prems Suc by auto
    show ?thesis
      using Cons.IH [OF n] s Suc by (simp add: Let_def trigger_def)
  qed
qed

section \<open>The resolved list is the concatenation\<close>

lemma truthy_not_null: "truthy v \<Longrightarrow> v \<noteq> Plain JNull"
  by auto

lemma loaded_schemas:
  "require_all W cwd files = (Inr mods, es) \<Longrightarrow> map_validationSchema mods = Inr vals \<Longrightarrow>
   filter (\<lambda>schema. schema \<noteq> Plain JNull) vals = concat (map (module_schema W cwd) files)"
proof (induction files arbitrary: mods es vals)
  case Nil
  then show ?case by auto
next
  case (Cons f files)
  from Cons.prems(1) obtain m ms es' where
    m: "require W (path_resolve2 W cwd f) = Inr m"
    and ms: "require_all W cwd files = (Inr ms, es')"
    and mods: "mods = m # ms"
    by (auto simp: Let_def split: sum.splits prod.splits)
  from Cons.prems(2) mods obtain v vs where
    v: "validationSchema_or_null m = Inr v"
    and vs: "map_validationSchema ms = Inr vs"
    and vals: "vals = v # vs"
    by (auto split: sum.splits)
  from v obtain x where x: "m = Exports x" "v = (if truthy x then x else Plain JNull)"
    by (cases m) auto
  have hd: "filter (\<lambda>schema. schema \<noteq> Plain JNull) [v] = module_schema W cwd f"
    using m x truthy_not_null [of x] by (simp add: module_schema_def)
  have "filter (\<lambda>schema. schema \<noteq> Plain JNull) vals
        = filter (\<lambda>schema. schema \<noteq> Plain JNull) [v]
          @ filter (\<lambda>schema. schema \<noteq> Plain JNull) vs"
    using vals by simp
  also have "\<dots> = module_schema W cwd f @ concat (map (module_schema W cwd) files)"
    using hd Cons.IH [OF ms vs] by (simp only:)
  finally show ?case
    by simp
qed

lemma resolve_path_Inr:
  assumes "resolve_path W path \<sigma> = (Inr schemas, \<tau>, es)"
  shows "\<exists>entries files. readdirSync W (path_resolve W path) = Inr entries
           \<and> filter_entries W entries \<sigma> = (files, \<tau>)
           \<and> schemas = concat (map (module_schema W (path_resolve W path)) files)"
proof (cases "readdirSync W (path_resolve W path)")
  case (Inl e)
  with assms show ?thesis
    by (simp add: resolve_path_def)
next
  case (Inr entries)
  obtain files \<tau>' where fe: "filter_entries W entries \<sigma> = (files, \<tau>')"
    by (cases "filter_entries W entries \<sigma>")
  obtain r es' where ra: "require_all W (path_resolve W path) files = (r, es')"
    by (cases "require_all W (path_resolve W path) files")
  from assms Inr fe ra obtain mods vals where
    r: "r = Inr mods" and vals: "map_validationSchema mods = Inr vals"
    and res: "\<tau> = \<tau>'" "schemas = filter (\<lambda>schema. schema \<noteq> Plain JNull) vals"
    by (auto simp: resolve_path_def Let_def tap_def split: sum.splits)
  from ra r have "require_all W (path_resolve W path) files = (Inr mods, es')"
    by simp
  from loaded_schemas [OF this vals] Inr fe res show ?thesis
    by simp
qed

lemma map_resolve_path_Inr:
  "map_resolve_path W paths \<sigma> = (Inr per_path, \<tau>, es) \<Longrightarrow>
   per_path = map (\<lambda>(cwd, files). concat (map (module_schema W cwd) files))
                (selected_files W paths \<sigma>)
   \<and> map fst (selected_files W paths \<sigma>) = map (path_resolve W) paths"
proof (induction paths arbitrary: \<sigma> per_path \<tau> es)
  case Nil
  then show ?case by auto
next
  case (Cons path paths)
  from Cons.prems obtain schemas \<sigma>1 es1 rest es2 where
    rp: "resolve_path W path \<sigma> = (Inr schemas, \<sigma>1, es1)"
    and mp: "map_resolve_path W paths \<sigma>1 = (Inr rest, \<tau>, es2)"
    and pp: "per_path = schemas # rest"
    by (auto split: sum.splits prod.splits)
  from resolve_path_Inr [OF rp] obtain entries files where
    e: "readdirSync W (path_resolve W path) = Inr entries"
    and f: "filter_entries W entries \<sigma> = (files, \<sigma>1)"
    and s: "schemas = concat (map (module_schema W (path_resolve W path)) files)"
    by blast
  from Cons.IH [OF mp] e f s pp show ?case
    by simp
qed

lemma resolve_Inr:
  assumes "resolveConfigValidationSchema W \<sigma> = (Inr schemas, \<tau>, es)"
  shows "schemas = concatenated_schemas W \<sigma>"
    and "map fst (selected_files W (resolution_paths \<sigma>) \<sigma>) = map (path_resolve W) (resolution_paths \<sigma>)"
proof -
  from assms obtain per_path where
    mp: "map_resolve_path W (resolution_paths \<sigma>) \<sigma> = (Inr per_path, \<tau>, es)"
    and s: "schemas = concat per_path"
    by (auto simp: resolveConfigValidationSchema_def split: sum.splits prod.splits)
  from map_resolve_path_Inr [OF mp] s
  show "schemas = concatenated_schemas W \<sigma>"
    and "map fst (selected_files W (resolution_paths \<sigma>) \<sigma>) = map (path_resolve W) (resolution_paths \<sigma>)"
    by (simp_all add: concatenated_schemas_def)
qed

lemma filter_entries_subseq: "subseq (fst (filter_entries W vs \<sigma>)) vs"
proof (induction vs arbitrary: \<sigma>)
  case Nil
  show ?case by simp
next
  case (Cons v vs)
  obtain b \<tau> where p: "passesConfigFileFilters W v \<sigma> = (b, \<tau>)"
    by (cases "passesConfigFileFilters W v \<sigma>")
  obtain rest \<upsilon> where r: "filter_entries W vs \<tau> = (rest, \<upsilon>)"
    by (cases "filter_entries W vs \<tau>")
  have "subseq rest vs"
    using Cons.IH [of \<tau>] r by simp
  with p r show ?case
    by (cases b) auto
qed

lemma selected_files_listing:
  "(cwd, files) \<in> set (selected_files W paths \<sigma>) \<Longrightarrow> subseq files (listing_of W cwd)"
proof (induction paths arbitrary: \<sigma>)
  case Nil
  then show ?case by simp
next
  case (Cons path paths)
  show ?case
  proof (cases "readdirSync W (path_resolve W path)")
    case (Inl e)
    with Cons.prems show ?thesis by simp
  next
    case (Inr entries)
    obtain fs \<tau> where fe: "filter_entries W entries \<sigma> = (fs, \<tau>)"
      by (cases "filter_entries W entries \<sigma>")
    have sub: "subseq fs entries"
      using filter_entries_subseq [of W entries \<sigma>] fe by simp
    from Cons.prems Inr fe
    have "(cwd, files) = (path_resolve W path, fs) \<or> (cwd, files) \<in> set (selected_files W paths \<tau>)"
      by simp
    then show ?thesis
    proof
      assume "(cwd, files) = (path_resolve W path, fs)"
      with Inr sub show ?thesis by simp
    next
      assume "(cwd, files) \<in> set (selected_files W paths \<tau>)"
      then show ?thesis by (rule Cons.IH)
    qed
  qed
qed

section \<open>Filters without the flags g and y\<close>

lemma RegExp_test_stateless:
  "\<not> is_stateful (regexps \<sigma> f) \<Longrightarrow>
   RegExp_test W f v \<sigma> = (pattern_matches W (regexps \<sigma> f) v, \<sigma>)"
  by (auto simp: RegExp_test_def set_lastIndex_def pattern_matches_def Let_def split: option.split)

lemma some_test_stateless:
  "list_all (\<lambda>f. \<not> is_stateful (regexps \<sigma> f)) fs \<Longrightarrow>
   some_test W fs v \<sigma> = (list_ex (\<lambda>f. pattern_matches W (regexps \<sigma> f) v) fs, \<sigma>)"
  by (induction fs) (auto simp: RegExp_test_stateless split: bool.split)

lemma passes_stateless:
  "stateless_filters \<sigma> \<Longrightarrow>
   passesConfigFileFilters W v \<sigma> = (matches_some_filter W \<sigma> v, \<sigma>)"
  by (simp add: stateless_filters_def passesConfigFileFilters_def matches_some_filter_def
      some_test_stateless)

lemma filter_entries_stateless:
  "stateless_filters \<sigma> \<Longrightarrow>
   filter_entries W vs \<sigma> = (filter (matches_some_filter W \<sigma>) vs, \<sigma>)"
  by (induction vs) (auto simp: passes_stateless)

lemma resolve_path_stateless:
  "stateless_filters \<sigma> \<Longrightarrow> state_after (resolve_path W path \<sigma>) = \<sigma>"
  by (simp add: resolve_path_state filter_entries_stateless split: sum.split)

lemma map_resolve_path_stateless:
  "stateless_filters \<sigma> \<Longrightarrow> state_after (map_resolve_path W paths \<sigma>) = \<sigma>"
proof (induction paths)
  case Nil
  show ?case by (simp add: state_after_def)
next
  case (Cons path paths)
  obtain r \<tau> es where rp: "resolve_path W path \<sigma> = (r, \<tau>, es)"
    by (cases "resolve_path W path \<sigma>")
  have \<tau>: "\<tau> = \<sigma>"
    using resolve_path_stateless [OF Cons.prems, of W path] rp by (simp add: state_after_def)
  show ?case
  proof (cases r)
    case (Inl e)
    with rp \<tau> show ?thesis by (simp add: state_after_def)
  next
    case (Inr schemas)
    with rp \<tau> have "state_after (map_resolve_path W (path # paths) \<sigma>)
                  = state_after (map_resolve_path W paths \<sigma>)"
      by (simp add: state_after_def split: prod.split sum.split)
    with Cons show ?thesis
      by simp
  qed
qed

lemma validateEnv_stateless:
  "stateless_filters \<sigma> \<Longrightarrow> state_after (validateEnv W cfg \<sigma>) = \<sigma>"
proof -
  assume s: "stateless_filters \<sigma>"
  have "state_after (resolveConfigValidationSchema W \<sigma>)
        = state_after (map_resolve_path W (resolution_paths \<sigma>) \<sigma>)"
    by (simp add: resolveConfigValidationSchema_def state_after_def split: prod.split sum.split)
  with s show ?thesis
    by (simp add: validateEnv_state map_resolve_path_stateless)
qed

lemma validateEnv_stateless_repeat:
  "stateless_filters \<sigma> \<Longrightarrow>
   validateEnv W cfg (state_after (validateEnv W cfg \<sigma>)) = validateEnv W cfg \<sigma>"
  by (simp add: validateEnv_stateless)

section \<open>Removing a path\<close>

lemmas array_defs =
  config_file_filters_def resolution_paths_def push_string_def push_regexp_def
  new_string_array_def new_regexp_array_def

lemma removeResolutionPath_paths:
  "resolution_paths (removeResolutionPath p \<sigma>) = removeAll p (resolution_paths \<sigma>)"
proof -
  have "filter (\<lambda>q. q \<noteq> p) xs = removeAll p xs" for xs :: "string list"
    by (induction xs) auto
  then show ?thesis
    by (simp add: removeResolutionPath_def array_defs)
qed

text \<open>
  C10: on a path set that may hold duplicates, \<open>removeResolutionPath p\<close> removes every
  occurrence of \<open>p\<close>, not only one; every other path stays as often as it occurred,
  and the remaining paths keep their relative order (the new list is a subsequence of
  the old one, the old one with all \<open>p\<close> taken out). The filter set is not touched.
\<close>

theorem removeResolutionPath_removes_all:
  "p \<notin> set (resolution_paths (removeResolutionPath p \<sigma>))
   \<and> (\<forall>q. q \<noteq> p \<longrightarrow>
         count_list (resolution_paths (removeResolutionPath p \<sigma>)) q
           = count_list (resolution_paths \<sigma>) q)
   \<and> subseq (resolution_paths (removeResolutionPath p \<sigma>)) (resolution_paths \<sigma>)
   \<and> resolution_paths (removeResolutionPath p \<sigma>) = removeAll p (resolution_paths \<sigma>)
   \<and> config_file_filters (removeResolutionPath p \<sigma>) = config_file_filters \<sigma>"
proof -
  let ?old = "resolution_paths \<sigma>"
  let ?new = "resolution_paths (removeResolutionPath p \<sigma>)"
  have new: "?new = filter (\<lambda>x. x \<noteq> p) ?old"
    by (simp add: removeResolutionPath_def array_defs)
  have cnt: "q \<noteq> p \<Longrightarrow> count_list (filter (\<lambda>x. x \<noteq> p) xs) q = count_list xs q"
    for q and xs :: "string list"
    by (induction xs) auto
  have "p \<notin> set ?new"
    by (simp add: new)
  moreover have "\<forall>q. q \<noteq> p \<longrightarrow> count_list ?new q = count_list ?old q"
    by (simp add: new cnt)
  moreover have "subseq ?new ?old"
    by (simp add: new)
  moreover have "?new = removeAll p ?old"
    by (rule removeResolutionPath_paths)
  moreover have "config_file_filters (removeResolutionPath p \<sigma>) = config_file_filters \<sigma>"
    by (simp add: removeResolutionPath_def array_defs)
  ultimately show ?thesis
    by blast
qed

text \<open>On \<open>/a, /b, /a, /c\<close> removing \<open>/a\<close> leaves \<open>/b, /c\<close>.\<close>

theorem removeResolutionPath_removes_all_witness:
  "''/b'' \<noteq> ''/a''
   \<and> resolution_paths (removeResolutionPath ''/a'' (app_state [] [''/a'', ''/b'', ''/a'', ''/c'']))
       = [''/b'', ''/c'']
   \<and> count_list (resolution_paths
         (removeResolutionPath ''/a'' (app_state [] [''/a'', ''/b'', ''/a'', ''/c'']))) ''/b''
       = count_list (resolution_paths (app_state [] [''/a'', ''/b'', ''/a'', ''/c''])) ''/b''"
  using removeResolutionPath_removes_all [of "''/a''" "app_state [] [''/a'', ''/b'', ''/a'', ''/c'']"]
  by (simp add: removeResolutionPath_def app_state_def array_defs)

section \<open>Removing a filter\<close>

text \<open>
  C7: a filter \<open>f\<close> of the set is removed by \<open>removeConfigFileFilter f'\<close> for any
  other pattern object \<open>f'\<close> with the same pattern text, also right after \<open>f\<close> was
  added; filters with another pattern text stay, and the path set is not touched.
\<close>

theorem removeConfigFileFilter_by_source_text:
  assumes "f \<in> set (config_file_filters \<sigma>)"
    and "f' \<noteq> f"
    and "source (regexps \<sigma> f') = source (regexps \<sigma> f)"
  shows "f \<notin> set (config_file_filters (removeConfigFileFilter f' \<sigma>))
         \<and> f \<notin> set (config_file_filters (removeConfigFileFilter f' (addConfigFileFilter f \<sigma>)))
         \<and> (\<forall>g \<in> set (config_file_filters \<sigma>).
               source (regexps \<sigma> g) \<noteq> source (regexps \<sigma> f)
                \<longrightarrow> g \<in> set (config_file_filters (removeConfigFileFilter f' \<sigma>)))
         \<and> resolution_paths (removeConfigFileFilter f' \<sigma>) = resolution_paths \<sigma>"
  using assms by (simp add: removeConfigFileFilter_def addConfigFileFilter_def array_defs)

text \<open>
  The filter at address 0 carries the flag \<open>i\<close>, the object at address 1 has the same
  text and no flag: two different objects, and removing by the second empties the set.
\<close>

theorem removeConfigFileFilter_by_source_text_witness:
  "(0::nat) \<in> set (config_file_filters (app_state ''i'' [''/app/config'']))
   \<and> (1::nat) \<noteq> 0
   \<and> regexps (app_state ''i'' [''/app/config'']) 1 \<noteq> regexps (app_state ''i'' [''/app/config'']) 0
   \<and> source (regexps (app_state ''i'' [''/app/config'']) 1)
       = source (regexps (app_state ''i'' [''/app/config'']) 0)
   \<and> config_file_filters (removeConfigFileFilter 1 (app_state ''i'' [''/app/config''])) = []"
  using removeConfigFileFilter_by_source_text [of 0 "app_state ''i'' [''/app/config'']" 1]
  by (simp add: removeConfigFileFilter_def app_state_def config_pattern_def array_defs)

section \<open>The sets change through the mutators only\<close>

lemma same_sets_contents:
  "same_sets \<sigma> \<tau> \<Longrightarrow>
   config_file_filters \<tau> = config_file_filters \<sigma> \<and> resolution_paths \<tau> = resolution_paths \<sigma>"
  by (simp add: same_sets_def config_file_filters_def resolution_paths_def)

lemma perform_same:
  "\<not> is_mutator op \<Longrightarrow> same_sets \<sigma> (perform W op \<sigma>)"
  by (cases op)
     (simp_all add: validateEnv_state resolveConfigValidationSchema_same same_sets_refl
        configFileFilters_def resolutionPaths_def)

lemma perform_all_same:
  "list_all (\<lambda>op. \<not> is_mutator op) ops \<Longrightarrow> same_sets \<sigma> (perform_all W ops \<sigma>)"
proof (induction ops arbitrary: \<sigma>)
  case Nil
  show ?case by (simp add: perform_all_def same_sets_refl)
next
  case (Cons op ops)
  have first: "same_sets \<sigma> (perform W op \<sigma>)"
    using Cons.prems by (simp add: perform_same)
  have rest: "same_sets (perform W op \<sigma>) (perform_all W ops (perform W op \<sigma>))"
    using Cons.prems by (simp add: Cons.IH)
  have "perform_all W (op # ops) \<sigma> = perform_all W ops (perform W op \<sigma>)"
    by (simp add: perform_all_def)
  with same_sets_trans [OF first rest] show ?case
    by simp
qed

lemma perform_stateless:
  "\<not> is_mutator op \<Longrightarrow> stateless_filters \<sigma> \<Longrightarrow> perform W op \<sigma> = \<sigma>"
  by (cases op) (simp_all add: validateEnv_stateless configFileFilters_def resolutionPaths_def)

lemma perform_all_stateless:
  "list_all (\<lambda>op. \<not> is_mutator op) ops \<Longrightarrow> stateless_filters \<sigma> \<Longrightarrow>
   perform_all W ops \<sigma> = \<sigma>"
  by (induction ops) (simp_all add: perform_all_def perform_stateless)

text \<open>
  C9, as the code has it by design: the operations of an instance other than the eight
  add, remove and clear mutators, that is \<open>validateEnv\<close> (whether it returns or throws)
  and the two getters, in any number and order, assign neither field and change no
  array: both sets hold the same elements in the same order afterwards, and every
  pattern object keeps its pattern text and its flags; when no filter carries the flag
  \<open>g\<close> or \<open>y\<close>, the whole state is as it was. A getter changes nothing, but what it
  returns is the private array itself: a \<open>push\<close> on it changes the set without any
  mutator.
\<close>

theorem only_the_mutators_change_the_sets:
  assumes "list_all (\<lambda>op. \<not> is_mutator op) ops"
  shows "this_config_file_filters (perform_all W ops \<sigma>) = this_config_file_filters \<sigma>
         \<and> this_resolution_paths (perform_all W ops \<sigma>) = this_resolution_paths \<sigma>
         \<and> regexp_arrays (perform_all W ops \<sigma>) = regexp_arrays \<sigma>
         \<and> string_arrays (perform_all W ops \<sigma>) = string_arrays \<sigma>
         \<and> config_file_filters (perform_all W ops \<sigma>) = config_file_filters \<sigma>
         \<and> resolution_paths (perform_all W ops \<sigma>) = resolution_paths \<sigma>
         \<and> (\<forall>f. source (regexps (perform_all W ops \<sigma>) f) = source (regexps \<sigma> f)
                \<and> flags (regexps (perform_all W ops \<sigma>) f) = flags (regexps \<sigma> f))
         \<and> (stateless_filters \<sigma> \<longrightarrow> perform_all W ops \<sigma> = \<sigma>)
         \<and> snd (configFileFilters \<sigma>) = \<sigma>
         \<and> snd (resolutionPaths \<sigma>) = \<sigma>
         \<and> regexp_arrays \<sigma> (fst (configFileFilters \<sigma>)) = config_file_filters \<sigma>
         \<and> string_arrays \<sigma> (fst (resolutionPaths \<sigma>)) = resolution_paths \<sigma>
         \<and> config_file_filters (push_regexp (fst (configFileFilters \<sigma>)) f \<sigma>)
             = config_file_filters \<sigma> @ [f]
         \<and> resolution_paths (push_string (fst (resolutionPaths \<sigma>)) path \<sigma>)
             = resolution_paths \<sigma> @ [path]"
proof -
  have same: "same_sets \<sigma> (perform_all W ops \<sigma>)"
    by (rule perform_all_same [OF assms])
  have fields: "this_config_file_filters (perform_all W ops \<sigma>) = this_config_file_filters \<sigma>
      \<and> this_resolution_paths (perform_all W ops \<sigma>) = this_resolution_paths \<sigma>
      \<and> regexp_arrays (perform_all W ops \<sigma>) = regexp_arrays \<sigma>
      \<and> string_arrays (perform_all W ops \<sigma>) = string_arrays \<sigma>"
    using same by (simp add: same_sets_def)
  have contents: "config_file_filters (perform_all W ops \<sigma>) = config_file_filters \<sigma>
      \<and> resolution_paths (perform_all W ops \<sigma>) = resolution_paths \<sigma>"
    by (rule same_sets_contents [OF same])
  have patterns: "\<forall>f. source (regexps (perform_all W ops \<sigma>) f) = source (regexps \<sigma> f)
      \<and> flags (regexps (perform_all W ops \<sigma>) f) = flags (regexps \<sigma> f)"
    using same by (simp add: same_sets_def)
  have whole: "stateless_filters \<sigma> \<longrightarrow> perform_all W ops \<sigma> = \<sigma>"
    using assms by (simp add: perform_all_stateless)
  have getters: "snd (configFileFilters \<sigma>) = \<sigma> \<and> snd (resolutionPaths \<sigma>) = \<sigma>
      \<and> regexp_arrays \<sigma> (fst (configFileFilters \<sigma>)) = config_file_filters \<sigma>
      \<and> string_arrays \<sigma> (fst (resolutionPaths \<sigma>)) = resolution_paths \<sigma>"
    by (simp add: configFileFilters_def resolutionPaths_def array_defs)
  have pushes: "config_file_filters (push_regexp (fst (configFileFilters \<sigma>)) f \<sigma>)
        = config_file_filters \<sigma> @ [f]
      \<and> resolution_paths (push_string (fst (resolutionPaths \<sigma>)) path \<sigma>)
        = resolution_paths \<sigma> @ [path]"
    by (simp add: configFileFilters_def resolutionPaths_def array_defs)
  from fields contents patterns whole getters pushes show ?thesis
    by blast
qed

text \<open>
  Two calls of \<open>validateEnv\<close> and the two getters on an instance whose filter carries
  the flag \<open>g\<close>: the filter set is still the one pattern object, with its text and flag,
  and the path set is still the one path.
\<close>

theorem only_the_mutators_change_the_sets_witness:
  "config_file_filters
     (perform_all W_app
        [Call_validateEnv cfg_low_port, Get_resolutionPaths, Call_validateEnv cfg_good,
         Get_configFileFilters]
        (app_state ''g'' [''/app/services'']))
     = [0]
   \<and> resolution_paths
       (perform_all W_app
          [Call_validateEnv cfg_low_port, Get_resolutionPaths, Call_validateEnv cfg_good,
           Get_configFileFilters]
          (app_state ''g'' [''/app/services'']))
     = [''/app/services'']
   \<and> flags (regexps
       (perform_all W_app
          [Call_validateEnv cfg_low_port, Get_resolutionPaths, Call_validateEnv cfg_good,
           Get_configFileFilters]
          (app_state ''g'' [''/app/services''])) 0)
     = ''g''"
proof -
  have ops: "list_all (\<lambda>op. \<not> is_mutator op)
               [Call_validateEnv cfg_low_port, Get_resolutionPaths, Call_validateEnv cfg_good,
                Get_configFileFilters]"
    by simp
  have init: "config_file_filters (app_state ''g'' [''/app/services'']) = [0]"
    "resolution_paths (app_state ''g'' [''/app/services'']) = [''/app/services'']"
    "flags (regexps (app_state ''g'' [''/app/services'']) 0) = ''g''"
    by (simp_all add: app_state_def config_pattern_def array_defs)
  from only_the_mutators_change_the_sets [OF ops, of W_app "app_state ''g'' [''/app/services'']"]
    init
  show ?thesis
    by simp
qed

text \<open>
  C9 as stated fails: the path set changes without any mutator. The getter
  \<open>resolutionPaths\<close> hands out the private array, and a \<open>push\<close> on it adds a path to the
  set.
\<close>

theorem getter_result_changes_the_set:
  "resolution_paths (app_state [] [''/app/config'']) = [''/app/config'']
   \<and> snd (resolutionPaths (app_state [] [''/app/config''])) = app_state [] [''/app/config'']
   \<and> resolution_paths
       (push_string (fst (resolutionPaths (app_state [] [''/app/config''])))
          ''/tmp/other'' (snd (resolutionPaths (app_state [] [''/app/config'']))))
     = [''/app/config'', ''/tmp/other'']"
  by (simp add: resolutionPaths_def app_state_def array_defs)

section \<open>Running the application\<close>

lemmas app_defs =
  resolveConfigValidationSchema_def resolve_path_def W_app_def app_state_def app_readdir_def
  app_require_def app_regexp_exec_def passesConfigFileFilters_def
  config_file_filters_def resolution_paths_def
  RegExp_test_def set_lastIndex_def is_stateful_def config_pattern_def
  default_filter_source_def trigger_def tap_def Let_def

lemma resolve_app_config:
  "resolveConfigValidationSchema W_app (app_state [] [''/app/config'']) =
     (Inr [SchemaObj AuthSchema, SchemaObj DbSchema], app_state [] [''/app/config''],
      [Readdir ''/app/config'',
       Trigger (Configuration_resolved_files
                  [''auth.config.ts'', ''db.config.ts'', ''empty.config.ts'']),
       Require ''/app/config/auth.config.ts'',
       Require ''/app/config/db.config.ts'',
       Require ''/app/config/empty.config.ts'',
       Trigger (Configuration_loaded_schemas [SchemaObj AuthSchema, SchemaObj DbSchema])])"
  by (simp add: app_defs)

lemma validate_low_port:
  "joi_validate W_app AuthSchema cfg_low_port = None"
  "joi_validate W_app DbSchema cfg_low_port
     = Some (JoiError ''DB_PORT must be greater than or equal to 1024'')"
  by (simp_all add: W_app_def cfg_low_port_def)

lemma validate_good:
  "joi_validate W_app AuthSchema cfg_good = None"
  "joi_validate W_app DbSchema cfg_good = None"
  by (simp_all add: W_app_def cfg_good_def)

section \<open>The first failing schema\<close>

lemma validateEnv_unfold:
  assumes "resolveConfigValidationSchema W \<sigma> = (Inr schemas, \<tau>, es)"
  shows "validateEnv W cfg \<sigma> =
           (case validate_each W cfg schemas of
              (Inl e, es2) \<Rightarrow> (Inl e, \<tau>, Trigger (Validate_before cfg) # es @ es2)
            | (Inr u, es2) \<Rightarrow>
                (Inr cfg, \<tau>, Trigger (Validate_before cfg) # es @ es2 @ [Trigger (Validate_after cfg)]))"
  using assms by (simp add: validateEnv_def trigger_def split: prod.split sum.split)

lemma resolved_discovery:
  assumes "resolveConfigValidationSchema W \<sigma> = (Inr schemas, \<tau>, es)"
  shows "list_all is_discovery es"
  using resolve_discovery [of W \<sigma>] assms by (simp add: effects_def)

lemma filter_checked:
  "filter is_validate_schema
     (concat (map (\<lambda>s. [Validate s, Trigger (Validate_schema s cfg None)]) ss))
   = map (\<lambda>s. Trigger (Validate_schema s cfg None)) ss"
  "filter is_validate_call
     (concat (map (\<lambda>s. [Validate s, Trigger (Validate_schema s cfg None)]) ss))
   = map Validate ss"
  by (induction ss) auto

lemma first_failure_run:
  assumes res: "resolveConfigValidationSchema W \<sigma> = (Inr (map SchemaObj ss), \<tau>, es)"
    and k: "1 \<le> k" "k \<le> length ss"
    and before: "\<forall>j<k - 1. joi_validate W (ss ! j) cfg = None"
    and at: "joi_validate W (ss ! (k - 1)) cfg = Some err"
  shows "validateEnv W cfg \<sigma> =
           (Inl (Error (''Config validation error: '' @ message err)), \<tau>,
            Trigger (Validate_before cfg) # es
              @ concat (map (\<lambda>s. [Validate s, Trigger (Validate_schema s cfg None)])
                          (take (k - 1) ss))
              @ [Validate (ss ! (k - 1)),
                 Trigger (Validate_schema (ss ! (k - 1)) cfg (Some err))])"
proof -
  have "k - 1 < length ss"
    using k by simp
  from validate_each_first_failure [OF this before at] validateEnv_unfold [OF res, of cfg]
  show ?thesis
    by simp
qed

text \<open>
  C1: let the resolved list be the schemas \<open>ss\<close>, and let schema \<open>k\<close> (counted from
  1) be the first whose \<open>validate\<close> reports an error. Then \<open>validateEnv\<close> fires
  exactly \<open>k\<close> \<open>validate_schema\<close> events, one for each of the first \<open>k\<close> schemas in
  order, the first \<open>k - 1\<close> with no error and the last with the error of schema \<open>k\<close>;
  it throws; and \<open>validate\<close> is invoked on the first \<open>k\<close> schemas only, never on
  schemas \<open>k + 1\<close> to \<open>N\<close>.
\<close>

theorem validateEnv_stops_at_first_failure:
  assumes "resolveConfigValidationSchema W \<sigma> = (Inr (map SchemaObj ss), \<tau>, es)"
    and "1 \<le> k" and "k \<le> length ss"
    and "\<forall>j<k - 1. joi_validate W (ss ! j) cfg = None"
    and "joi_validate W (ss ! (k - 1)) cfg = Some err"
  shows "length (filter is_validate_schema (effects (validateEnv W cfg \<sigma>))) = k
         \<and> filter is_validate_schema (effects (validateEnv W cfg \<sigma>))
             = map (\<lambda>s. Trigger (Validate_schema s cfg None)) (take (k - 1) ss)
               @ [Trigger (Validate_schema (ss ! (k - 1)) cfg (Some err))]
         \<and> isl (outcome (validateEnv W cfg \<sigma>))
         \<and> filter is_validate_call (effects (validateEnv W cfg \<sigma>)) = map Validate (take k ss)"
proof -
  note run = first_failure_run [OF assms]
  note d = discovery_no_validation [OF resolved_discovery [OF assms(1)]]
  have tk: "take k ss = take (k - 1) ss @ [ss ! (k - 1)]"
    using assms(2,3) by (cases k) (simp_all add: take_Suc_conv_app_nth)
  have len: "length (take (k - 1) ss) + 1 = k"
    using assms(2,3) by simp
  have evs: "filter is_validate_schema (effects (validateEnv W cfg \<sigma>))
             = map (\<lambda>s. Trigger (Validate_schema s cfg None)) (take (k - 1) ss)
               @ [Trigger (Validate_schema (ss ! (k - 1)) cfg (Some err))]"
    by (simp add: run effects_def d filter_checked)
  have calls: "filter is_validate_call (effects (validateEnv W cfg \<sigma>)) = map Validate (take k ss)"
    by (simp add: run effects_def d filter_checked tk)
  have thrown: "isl (outcome (validateEnv W cfg \<sigma>))"
    by (simp add: run outcome_def)
  have "length (filter is_validate_schema (effects (validateEnv W cfg \<sigma>))) = k"
    using len by (simp add: evs)
  with evs calls thrown show ?thesis
    by blast
qed

text \<open>
  With \<open>DB_PORT = 80\<close> the second schema of \<open>/app/config\<close> is the first to fail: two
  events, the second with the error.
\<close>

theorem validateEnv_stops_at_first_failure_witness:
  "length (filter is_validate_schema
       (effects (validateEnv W_app cfg_low_port (app_state [] [''/app/config''])))) = 2
   \<and> filter is_validate_schema
       (effects (validateEnv W_app cfg_low_port (app_state [] [''/app/config''])))
       = [Trigger (Validate_schema AuthSchema cfg_low_port None),
          Trigger (Validate_schema DbSchema cfg_low_port
             (Some (JoiError ''DB_PORT must be greater than or equal to 1024'')))]
   \<and> isl (outcome (validateEnv W_app cfg_low_port (app_state [] [''/app/config''])))
   \<and> filter is_validate_call
       (effects (validateEnv W_app cfg_low_port (app_state [] [''/app/config''])))
       = [Validate AuthSchema, Validate DbSchema]"
proof -
  have r: "resolveConfigValidationSchema W_app (app_state [] [''/app/config'']) =
     (Inr (map SchemaObj [AuthSchema, DbSchema]), app_state [] [''/app/config''],
      [Readdir ''/app/config'',
       Trigger (Configuration_resolved_files
                  [''auth.config.ts'', ''db.config.ts'', ''empty.config.ts'']),
       Require ''/app/config/auth.config.ts'',
       Require ''/app/config/db.config.ts'',
       Require ''/app/config/empty.config.ts'',
       Trigger (Configuration_loaded_schemas [SchemaObj AuthSchema, SchemaObj DbSchema])])"
    by (simp add: resolve_app_config)
  have k: "1 \<le> (2::nat)" "2 \<le> length [AuthSchema, DbSchema]"
    by simp_all
  have b: "\<forall>j<2 - 1. joi_validate W_app ([AuthSchema, DbSchema] ! j) cfg_low_port = None"
    by (simp add: validate_low_port)
  have a: "joi_validate W_app ([AuthSchema, DbSchema] ! (2 - 1)) cfg_low_port
           = Some (JoiError ''DB_PORT must be greater than or equal to 1024'')"
    by (simp add: validate_low_port)
  from validateEnv_stops_at_first_failure [OF r k b a]
  show ?thesis
    by (simp add: numeral_2_eq_2)
qed


section \<open>The error that is thrown\<close>

lemma app_config_resolved:
  "resolveConfigValidationSchema W_app (app_state [] [''/app/config'']) =
     (Inr (map SchemaObj [AuthSchema, DbSchema]), app_state [] [''/app/config''],
      [Readdir ''/app/config'',
       Trigger (Configuration_resolved_files
                  [''auth.config.ts'', ''db.config.ts'', ''empty.config.ts'']),
       Require ''/app/config/auth.config.ts'',
       Require ''/app/config/db.config.ts'',
       Require ''/app/config/empty.config.ts'',
       Trigger (Configuration_loaded_schemas [SchemaObj AuthSchema, SchemaObj DbSchema])])"
  by (simp add: resolve_app_config)

text \<open>
  C2, as the code has it: when schema \<open>k\<close> is the first to report an error,
  \<open>validateEnv\<close> throws an \<open>Error\<close> whose message is \<open>Config validation error:\<close>
  followed by the message of that error. The text names no schema.
\<close>

theorem validateEnv_error_wraps_the_message:
  assumes "resolveConfigValidationSchema W \<sigma> = (Inr (map SchemaObj ss), \<tau>, es)"
    and "1 \<le> k" and "k \<le> length ss"
    and "\<forall>j<k - 1. joi_validate W (ss ! j) cfg = None"
    and "joi_validate W (ss ! (k - 1)) cfg = Some err"
  shows "outcome (validateEnv W cfg \<sigma>)
           = Inl (Error (''Config validation error: '' @ message err))"
  by (simp add: first_failure_run [OF assms] outcome_def)

text \<open>The error thrown for \<open>DB_PORT = 80\<close>.\<close>

theorem validateEnv_error_wraps_the_message_witness:
  "outcome (validateEnv W_app cfg_low_port (app_state [] [''/app/config'']))
     = Inl (Error ''Config validation error: DB_PORT must be greater than or equal to 1024'')"
proof -
  have k: "1 \<le> (2::nat)" "2 \<le> length [AuthSchema, DbSchema]"
    by simp_all
  have b: "\<forall>j<2 - 1. joi_validate W_app ([AuthSchema, DbSchema] ! j) cfg_low_port = None"
    by (simp add: validate_low_port)
  have a: "joi_validate W_app ([AuthSchema, DbSchema] ! (2 - 1)) cfg_low_port
           = Some (JoiError ''DB_PORT must be greater than or equal to 1024'')"
    by (simp add: validate_low_port)
  from validateEnv_error_wraps_the_message [OF app_config_resolved k b a]
  show ?thesis
    by simp
qed

text \<open>
  C2 as stated fails: the thrown error does not describe which schema failed. The
  schemas of \<open>/app/services\<close> and of \<open>/app/workers\<close> are different schemas with the
  same message; the two calls fail on different schemas and throw the same error.
\<close>

theorem error_does_not_name_the_schema:
  "outcome (validateEnv W_app cfg_good (app_state [] [''/app/services'']))
     = Inl (Error ''Config validation error: PORT is required'')
   \<and> outcome (validateEnv W_app cfg_good (app_state [] [''/app/workers'']))
     = Inl (Error ''Config validation error: PORT is required'')
   \<and> last_checked (effects (validateEnv W_app cfg_good (app_state [] [''/app/services''])))
     = Some CacheSchema
   \<and> last_checked (effects (validateEnv W_app cfg_good (app_state [] [''/app/workers''])))
     = Some QueueSchema
   \<and> CacheSchema \<noteq> QueueSchema"
  by (simp add: validateEnv_def app_defs outcome_def effects_def cfg_good_def)

section \<open>The hook after the validation\<close>

lemma all_pass_run:
  assumes res: "resolveConfigValidationSchema W \<sigma> = (Inr schemas, \<tau>, es)"
    and ok: "list_all (passes W cfg) schemas"
  shows "\<exists>es2. validateEnv W cfg \<sigma> =
           (Inr cfg, \<tau>, Trigger (Validate_before cfg) # es @ es2 @ [Trigger (Validate_after cfg)])
           \<and> filter is_validate_after es2 = []"
proof -
  obtain r es2 where v: "validate_each W cfg schemas = (r, es2)"
    by (cases "validate_each W cfg schemas")
  have "r = Inr ()"
    using validate_each_all_pass [OF ok] v by simp
  moreover have "filter is_validate_after es2 = []"
    using validate_each_no_after [of W cfg schemas] v by simp
  ultimately show ?thesis
    using validateEnv_unfold [OF res, of cfg] v by simp
qed

lemma not_all_pass_run:
  assumes res: "resolveConfigValidationSchema W \<sigma> = (Inr schemas, \<tau>, es)"
    and bad: "\<not> list_all (passes W cfg) schemas"
  shows "\<exists>e es2. validateEnv W cfg \<sigma> = (Inl e, \<tau>, Trigger (Validate_before cfg) # es @ es2)
           \<and> filter is_validate_after es2 = []"
proof -
  obtain r es2 where v: "validate_each W cfg schemas = (r, es2)"
    by (cases "validate_each W cfg schemas")
  have "isl r"
    using validate_each_not_all_pass [OF bad] v by simp
  then obtain e where "r = Inl e"
    by (cases r) auto
  moreover have "filter is_validate_after es2 = []"
    using validate_each_no_after [of W cfg schemas] v by simp
  ultimately show ?thesis
    using validateEnv_unfold [OF res, of cfg] v by simp
qed

lemma fires_iff_filter:
  "(Trigger (Validate_after cfg) \<in> set es) = (Trigger (Validate_after cfg) \<in> set (filter is_validate_after es))"
  by simp

text \<open>
  C3: for every environment bag and every resolved schema list, \<open>validate_after\<close>
  fires during \<open>validateEnv\<close> if and only if every schema's \<open>validate\<close> reported no
  error; it then fires once, and it does not fire when a schema fails.
\<close>

theorem validate_after_iff_all_pass:
  assumes "resolveConfigValidationSchema W \<sigma> = (Inr schemas, \<tau>, es)"
  shows "(Trigger (Validate_after cfg) \<in> set (effects (validateEnv W cfg \<sigma>)))
           = list_all (passes W cfg) schemas
         \<and> filter is_validate_after (effects (validateEnv W cfg \<sigma>))
             = (if list_all (passes W cfg) schemas then [Trigger (Validate_after cfg)] else [])"
proof -
  note d = discovery_no_validation(2) [OF resolved_discovery [OF assms]]
  have flt: "filter is_validate_after (effects (validateEnv W cfg \<sigma>))
             = (if list_all (passes W cfg) schemas then [Trigger (Validate_after cfg)] else [])"
  proof (cases "list_all (passes W cfg) schemas")
    case True
    from all_pass_run [OF assms True, of ] obtain es2 where
      "validateEnv W cfg \<sigma> =
         (Inr cfg, \<tau>, Trigger (Validate_before cfg) # es @ es2 @ [Trigger (Validate_after cfg)])"
      "filter is_validate_after es2 = []"
      by blast
    with True d show ?thesis
      by (simp add: effects_def)
  next
    case False
    from not_all_pass_run [OF assms False] obtain e es2 where
      "validateEnv W cfg \<sigma> = (Inl e, \<tau>, Trigger (Validate_before cfg) # es @ es2)"
      "filter is_validate_after es2 = []"
      by blast
    with False d show ?thesis
      by (simp add: effects_def)
  qed
  have "(Trigger (Validate_after cfg) \<in> set (effects (validateEnv W cfg \<sigma>)))
        = (Trigger (Validate_after cfg)
             \<in> set (filter is_validate_after (effects (validateEnv W cfg \<sigma>))))"
    by (rule fires_iff_filter)
  also have "\<dots> = list_all (passes W cfg) schemas"
    by (simp only: flt) simp
  finally show ?thesis
    using flt by blast
qed

lemma app_config_good: "list_all (passes W_app cfg_good) (map SchemaObj [AuthSchema, DbSchema])"
  by (simp add: validate_good)

lemma app_config_low_port:
  "\<not> list_all (passes W_app cfg_low_port) (map SchemaObj [AuthSchema, DbSchema])"
  by (simp add: validate_low_port)

text \<open>
  On \<open>/app/config\<close> the hook fires once for the good bag and not at all for
  \<open>DB_PORT = 80\<close>.
\<close>

theorem validate_after_iff_all_pass_witness:
  "filter is_validate_after (effects (validateEnv W_app cfg_good (app_state [] [''/app/config''])))
     = [Trigger (Validate_after cfg_good)]
   \<and> Trigger (Validate_after cfg_low_port)
       \<notin> set (effects (validateEnv W_app cfg_low_port (app_state [] [''/app/config''])))
   \<and> filter is_validate_after
       (effects (validateEnv W_app cfg_low_port (app_state [] [''/app/config''])))
     = []"
  using validate_after_iff_all_pass [OF app_config_resolved, of cfg_good]
    validate_after_iff_all_pass [OF app_config_resolved, of cfg_low_port]
    app_config_good app_config_low_port
  by simp

section \<open>The value returned\<close>

text \<open>
  C4: when all resolved schemas pass on an environment bag, \<open>validateEnv\<close> returns
  that bag itself: no key is added, removed or changed.
\<close>

theorem validateEnv_returns_the_bag:
  assumes "resolveConfigValidationSchema W \<sigma> = (Inr schemas, \<tau>, es)"
    and "list_all (passes W cfg) schemas"
  shows "outcome (validateEnv W cfg \<sigma>) = Inr cfg"
  using all_pass_run [OF assms] by (auto simp: outcome_def)

text \<open>The good bag comes back with its two keys.\<close>

theorem validateEnv_returns_the_bag_witness:
  "outcome (validateEnv W_app cfg_good (app_state [] [''/app/config''])) = Inr cfg_good
   \<and> cfg_good ''DB_PORT'' = Some (JNum 5432)
   \<and> cfg_good ''JWT_SECRET'' = Some (JStr ''x'')
   \<and> dom cfg_good = {''DB_PORT'', ''JWT_SECRET''}"
  using validateEnv_returns_the_bag [OF app_config_resolved app_config_good]
  by (auto simp: cfg_good_def)

lemma validateEnv_returns_only_the_bag:
  "outcome (validateEnv W cfg \<sigma>) = Inr c \<Longrightarrow> c = cfg"
  by (auto simp: validateEnv_def outcome_def Let_def split: prod.splits sum.splits)

section \<open>The order of the resolved list\<close>

text \<open>
  C5: the resolved schema list is the concatenation, over the resolution paths in their
  stored order, of what the selected files of each path contribute, file after file in
  the order of the directory listing (the selected files are a subsequence of the
  listing); a module whose \<open>validationSchema\<close> is missing or falsy contributes
  nothing, and nothing is removed as a duplicate.
\<close>

theorem resolved_schemas_are_the_concatenation:
  assumes "resolveConfigValidationSchema W \<sigma> = (Inr schemas, \<tau>, es)"
  shows "schemas = concat (map (\<lambda>(cwd, files). concat (map (module_schema W cwd) files))
                            (selected_files W (resolution_paths \<sigma>) \<sigma>))
         \<and> map fst (selected_files W (resolution_paths \<sigma>) \<sigma>)
             = map (path_resolve W) (resolution_paths \<sigma>)
         \<and> (\<forall>(cwd, files) \<in> set (selected_files W (resolution_paths \<sigma>) \<sigma>).
               subseq files (listing_of W cwd))"
proof -
  have "schemas = concatenated_schemas W \<sigma>"
    by (rule resolve_Inr(1) [OF assms])
  moreover have "map fst (selected_files W (resolution_paths \<sigma>) \<sigma>)
                 = map (path_resolve W) (resolution_paths \<sigma>)"
    by (rule resolve_Inr(2) [OF assms])
  moreover have "\<forall>(cwd, files) \<in> set (selected_files W (resolution_paths \<sigma>) \<sigma>).
                   subseq files (listing_of W cwd)"
    using selected_files_listing by fastforce
  ultimately show ?thesis
    by (simp add: concatenated_schemas_def)
qed

lemma app_config_twice_resolved:
  "outcome (resolveConfigValidationSchema W_app (app_state [] [''/app/config'', ''/app/config'']))
     = Inr [SchemaObj AuthSchema, SchemaObj DbSchema, SchemaObj AuthSchema, SchemaObj DbSchema]"
  by (simp add: app_defs outcome_def)

lemma app_config_twice_selected:
  "selected_files W_app [''/app/config'', ''/app/config''] (app_state [] [''/app/config'', ''/app/config''])
     = [(''/app/config'', [''auth.config.ts'', ''db.config.ts'', ''empty.config.ts'']),
        (''/app/config'', [''auth.config.ts'', ''db.config.ts'', ''empty.config.ts''])]"
  by (simp add: app_defs)

text \<open>
  With \<open>/app/config\<close> stored twice, its two schemas come twice, in the order of the
  listing, and \<open>empty.config.ts\<close> contributes nothing.
\<close>

theorem resolved_schemas_are_the_concatenation_witness:
  "outcome (resolveConfigValidationSchema W_app (app_state [] [''/app/config'', ''/app/config'']))
     = Inr [SchemaObj AuthSchema, SchemaObj DbSchema, SchemaObj AuthSchema, SchemaObj DbSchema]
   \<and> [SchemaObj AuthSchema, SchemaObj DbSchema, SchemaObj AuthSchema, SchemaObj DbSchema]
     = concat (map (\<lambda>(cwd, files). concat (map (module_schema W_app cwd) files))
         [(''/app/config'', [''auth.config.ts'', ''db.config.ts'', ''empty.config.ts'']),
          (''/app/config'', [''auth.config.ts'', ''db.config.ts'', ''empty.config.ts''])])
   \<and> module_schema W_app ''/app/config'' ''empty.config.ts'' = []"
proof -
  obtain \<tau> es where
    r: "resolveConfigValidationSchema W_app (app_state [] [''/app/config'', ''/app/config''])
        = (Inr [SchemaObj AuthSchema, SchemaObj DbSchema, SchemaObj AuthSchema, SchemaObj DbSchema],
           \<tau>, es)"
    using app_config_twice_resolved
    by (cases "resolveConfigValidationSchema W_app (app_state [] [''/app/config'', ''/app/config''])")
       (auto simp: outcome_def)
  have p: "resolution_paths (app_state [] [''/app/config'', ''/app/config''])
           = [''/app/config'', ''/app/config'']"
    by (simp add: app_state_def resolution_paths_def)
  have e: "module_schema W_app ''/app/config'' ''empty.config.ts'' = []"
    by (simp add: module_schema_def W_app_def app_require_def)
  from resolved_schemas_are_the_concatenation [OF r] app_config_twice_resolved e
  show ?thesis
    by (simp only: p app_config_twice_selected)
qed

section \<open>Which files are loaded\<close>

lemma require_all_prefix:
  "prefix (snd (require_all W cwd files)) (map (\<lambda>v. Require (path_resolve2 W cwd v)) files)"
  by (induction files) (auto simp: Let_def split: sum.split prod.split)

lemma require_all_complete:
  "fst (require_all W cwd files) = Inr mods \<Longrightarrow>
   snd (require_all W cwd files) = map (\<lambda>v. Require (path_resolve2 W cwd v)) files"
  by (induction files arbitrary: mods) (auto simp: Let_def split: sum.splits prod.splits)

lemma filter_is_require_loaded:
  "filter is_require (snd (require_all W cwd files)) = snd (require_all W cwd files)"
  by (induction files) (auto simp: Let_def split: sum.split prod.split)

lemma resolve_path_requires:
  assumes "readdirSync W (path_resolve W path) = Inr entries"
  shows "filter is_require (effects (resolve_path W path \<sigma>))
         = snd (require_all W (path_resolve W path) (fst (filter_entries W entries \<sigma>)))"
proof -
  obtain files \<tau> where fe: "filter_entries W entries \<sigma> = (files, \<tau>)"
    by (cases "filter_entries W entries \<sigma>")
  obtain r es where ra: "require_all W (path_resolve W path) files = (r, es)"
    by (cases "require_all W (path_resolve W path) files")
  have "filter is_require es = es"
    using filter_is_require_loaded [of W "path_resolve W path" files] ra by simp
  with assms fe ra show ?thesis
    by (simp add: resolve_path_def effects_def Let_def tap_def trigger_def split: sum.split)
qed

lemma resolve_path_Inr_loaded:
  assumes "resolve_path W path \<sigma> = (Inr schemas, \<tau>, es)"
    and "readdirSync W (path_resolve W path) = Inr entries"
  shows "\<exists>mods. fst (require_all W (path_resolve W path) (fst (filter_entries W entries \<sigma>)))
           = Inr mods"
proof -
  obtain files \<tau>' where fe: "filter_entries W entries \<sigma> = (files, \<tau>')"
    by (cases "filter_entries W entries \<sigma>")
  obtain r es' where ra: "require_all W (path_resolve W path) files = (r, es')"
    by (cases "require_all W (path_resolve W path) files")
  from assms fe ra show ?thesis
    by (auto simp: resolve_path_def Let_def tap_def split: sum.splits)
qed

lemma stateless_loads_matching_files:
  assumes "stateless_filters \<sigma>"
    and "readdirSync W (path_resolve W path) = Inr entries"
  shows "prefix (filter is_require (effects (resolve_path W path \<sigma>)))
           (map (\<lambda>v. Require (path_resolve2 W (path_resolve W path) v))
              (filter (matches_some_filter W \<sigma>) entries))"
  using require_all_prefix [of W "path_resolve W path" "filter (matches_some_filter W \<sigma>) entries"]
  by (simp add: resolve_path_requires [OF assms(2)] filter_entries_stateless [OF assms(1)])

lemma stateless_loads_all_matching_files:
  assumes "stateless_filters \<sigma>"
    and "readdirSync W (path_resolve W path) = Inr entries"
    and "resolve_path W path \<sigma> = (Inr schemas, \<tau>, es)"
  shows "filter is_require es
         = map (\<lambda>v. Require (path_resolve2 W (path_resolve W path) v))
             (filter (matches_some_filter W \<sigma>) entries)"
proof -
  from resolve_path_Inr_loaded [OF assms(3,2)] obtain mods where
    "fst (require_all W (path_resolve W path) (filter (matches_some_filter W \<sigma>) entries))
     = Inr mods"
    by (auto simp: filter_entries_stateless [OF assms(1)])
  from require_all_complete [OF this] resolve_path_requires [OF assms(2), of \<sigma>] assms(3)
  show ?thesis
    by (simp add: filter_entries_stateless [OF assms(1)] effects_def)
qed

lemma stateless_selected_files:
  assumes "stateless_filters \<sigma>"
    and "list_all (\<lambda>path. isl (readdirSync W (path_resolve W path)) = False) paths"
  shows "selected_files W paths \<sigma>
         = map (\<lambda>path. (path_resolve W path,
                         filter (matches_some_filter W \<sigma>) (listing_of W (path_resolve W path))))
             paths"
  using assms(2)
  by (induction paths)
     (auto simp: filter_entries_stateless [OF assms(1)] split: sum.splits)

lemma require_all_payloads: "resolved_files_payloads (snd (require_all W cwd files)) = []"
  by (induction files) (auto simp: Let_def split: sum.split prod.split)

lemma payloads_append:
  "resolved_files_payloads (es @ es') = resolved_files_payloads es @ resolved_files_payloads es'"
  by (induction es rule: resolved_files_payloads.induct) auto

lemma resolve_path_payloads:
  assumes "readdirSync W (path_resolve W path) = Inr entries"
  shows "resolved_files_payloads (effects (resolve_path W path \<sigma>))
         = [fst (filter_entries W entries \<sigma>)]"
proof -
  obtain files \<tau> where fe: "filter_entries W entries \<sigma> = (files, \<tau>)"
    by (cases "filter_entries W entries \<sigma>")
  obtain r es where ra: "require_all W (path_resolve W path) files = (r, es)"
    by (cases "require_all W (path_resolve W path) files")
  have "resolved_files_payloads es = []"
    using require_all_payloads [of W "path_resolve W path" files] ra by simp
  with assms fe ra show ?thesis
    by (simp add: resolve_path_def effects_def Let_def tap_def trigger_def payloads_append
             split: sum.split)
qed

lemma require_all_upto_first_throw:
  "snd (require_all W cwd files)
   = map (\<lambda>v. Require (path_resolve2 W cwd v)) (upto_first_throw W cwd files)"
  by (induction files)
     (auto simp: upto_first_throw_def loads_def Let_def split: sum.split prod.split)

lemma upto_first_throw_all:
  "list_all (loads W cwd) files \<Longrightarrow> upto_first_throw W cwd files = files"
  by (induction files) (auto simp: upto_first_throw_def)

text \<open>
  C6, as the code has it by design: take filters without the flags \<open>g\<close> and \<open>y\<close>
  and a resolution path whose directory can be listed. What is matched is the base name
  as the listing returns it, never the resolved path. The modules loaded are exactly, in
  the order of the listing, the entries whose base name matches at least one filter, up
  to and with the first whose loading throws; when no loading throws (so also when the
  path resolves) they are all the matching entries. The one
  \<open>configuration_resolved_files\<close> payload is the list of the matching entries, so an
  entry that matches no filter is neither loaded nor in it.
\<close>

theorem loaded_entries_match_a_filter:
  assumes "stateless_filters \<sigma>"
    and "readdirSync W (path_resolve W path) = Inr entries"
  shows "filter is_require (effects (resolve_path W path \<sigma>))
           = map (\<lambda>v. Require (path_resolve2 W (path_resolve W path) v))
               (takeWhile (loads W (path_resolve W path))
                  (filter (matches_some_filter W \<sigma>) entries)
                @ take 1 (dropWhile (loads W (path_resolve W path))
                            (filter (matches_some_filter W \<sigma>) entries)))
         \<and> (list_all (loads W (path_resolve W path)) (filter (matches_some_filter W \<sigma>) entries)
              \<longrightarrow> filter is_require (effects (resolve_path W path \<sigma>))
                    = map (\<lambda>v. Require (path_resolve2 W (path_resolve W path) v))
                        (filter (matches_some_filter W \<sigma>) entries))
         \<and> (\<forall>schemas \<tau> es. resolve_path W path \<sigma> = (Inr schemas, \<tau>, es) \<longrightarrow>
               filter is_require es
                 = map (\<lambda>v. Require (path_resolve2 W (path_resolve W path) v))
                     (filter (matches_some_filter W \<sigma>) entries))
         \<and> prefix (filter is_require (effects (resolve_path W path \<sigma>)))
             (map (\<lambda>v. Require (path_resolve2 W (path_resolve W path) v))
                (filter (matches_some_filter W \<sigma>) entries))
         \<and> resolved_files_payloads (effects (resolve_path W path \<sigma>))
             = [filter (matches_some_filter W \<sigma>) entries]"
proof -
  let ?cwd = "path_resolve W path"
  let ?matching = "filter (matches_some_filter W \<sigma>) entries"
  have loaded: "filter is_require (effects (resolve_path W path \<sigma>))
                = map (\<lambda>v. Require (path_resolve2 W ?cwd v)) (upto_first_throw W ?cwd ?matching)"
    by (simp add: resolve_path_requires [OF assms(2)] filter_entries_stateless [OF assms(1)]
        require_all_upto_first_throw)
  have exact: "filter is_require (effects (resolve_path W path \<sigma>))
               = map (\<lambda>v. Require (path_resolve2 W ?cwd v))
                   (takeWhile (loads W ?cwd) ?matching @ take 1 (dropWhile (loads W ?cwd) ?matching))"
    using loaded by (simp only: upto_first_throw_def)
  have all: "list_all (loads W ?cwd) ?matching
             \<longrightarrow> filter is_require (effects (resolve_path W path \<sigma>))
                   = map (\<lambda>v. Require (path_resolve2 W ?cwd v)) ?matching"
    using loaded by (simp add: upto_first_throw_all)
  have resolved: "\<forall>schemas \<tau> es. resolve_path W path \<sigma> = (Inr schemas, \<tau>, es) \<longrightarrow>
                   filter is_require es
                     = map (\<lambda>v. Require (path_resolve2 W ?cwd v)) ?matching"
    using stateless_loads_all_matching_files [OF assms] by blast
  have pre: "prefix (filter is_require (effects (resolve_path W path \<sigma>)))
               (map (\<lambda>v. Require (path_resolve2 W ?cwd v)) ?matching)"
    by (rule stateless_loads_matching_files [OF assms])
  have payload: "resolved_files_payloads (effects (resolve_path W path \<sigma>)) = [?matching]"
    by (simp add: resolve_path_payloads [OF assms(2)] filter_entries_stateless [OF assms(1)])
  from exact all resolved pre payload show ?thesis
    by blast
qed

lemma app_stateless: "stateless_filters (app_state [] paths)"
  by (simp add: stateless_filters_def app_state_def config_pattern_def is_stateful_def
      config_file_filters_def)

lemma app_config_listing:
  "readdirSync W_app (path_resolve W_app ''/app/config'')
     = Inr [''auth.config.ts'', ''db.config.ts'', ''empty.config.ts'', ''readme.md'']"
  by (simp add: W_app_def app_readdir_def)

lemma app_paths:
  "path_resolve W_app p = p"
  "path_resolve2 W_app cwd v = cwd @ ''/'' @ v"
  by (simp_all add: W_app_def)

lemma app_config_matching:
  "filter (matches_some_filter W_app (app_state [] [''/app/config'']))
     [''auth.config.ts'', ''db.config.ts'', ''empty.config.ts'', ''readme.md'']
   = [''auth.config.ts'', ''db.config.ts'', ''empty.config.ts'']"
  by (simp add: matches_some_filter_def pattern_matches_def app_defs)

lemma app_plugins_listing:
  "readdirSync W_app (path_resolve W_app ''/app/plugins'')
     = Inr [''broken.config.ts'', ''mail.config.ts'']"
  by (simp add: W_app_def app_readdir_def)

lemma app_plugins_matching:
  "filter (matches_some_filter W_app (app_state [] [''/app/plugins'']))
     [''broken.config.ts'', ''mail.config.ts'']
   = [''broken.config.ts'', ''mail.config.ts'']"
  by (simp add: matches_some_filter_def pattern_matches_def app_defs)

lemma app_loads:
  "loads W_app ''/app/config'' ''auth.config.ts''"
  "loads W_app ''/app/config'' ''db.config.ts''"
  "loads W_app ''/app/config'' ''empty.config.ts''"
  "\<not> loads W_app ''/app/plugins'' ''broken.config.ts''"
  by (simp_all add: loads_def W_app_def app_require_def)

text \<open>
  In \<open>/app/config\<close> the three configuration modules are loaded and reported;
  \<open>readme.md\<close> matches no filter and is not. In \<open>/app/plugins\<close> both entries match,
  and what is loaded is \<open>broken.config.ts\<close>, whose loading throws, and nothing after it.
\<close>

theorem loaded_entries_match_a_filter_witness:
  "filter is_require (effects (resolve_path W_app ''/app/config'' (app_state [] [''/app/config''])))
     = [Require ''/app/config/auth.config.ts'', Require ''/app/config/db.config.ts'',
        Require ''/app/config/empty.config.ts'']
   \<and> resolved_files_payloads
       (effects (resolve_path W_app ''/app/config'' (app_state [] [''/app/config''])))
     = [[''auth.config.ts'', ''db.config.ts'', ''empty.config.ts'']]
   \<and> \<not> matches_some_filter W_app (app_state [] [''/app/config'']) ''readme.md''
   \<and> filter is_require
       (effects (resolve_path W_app ''/app/plugins'' (app_state [] [''/app/plugins''])))
     = [Require ''/app/plugins/broken.config.ts'']
   \<and> resolved_files_payloads
       (effects (resolve_path W_app ''/app/plugins'' (app_state [] [''/app/plugins''])))
     = [[''broken.config.ts'', ''mail.config.ts'']]"
proof -
  have m: "\<not> matches_some_filter W_app (app_state [] [''/app/config'']) ''readme.md''"
    by (simp add: matches_some_filter_def pattern_matches_def app_defs)
  note c = loaded_entries_match_a_filter [OF app_stateless app_config_listing,
      of "[''/app/config'']", unfolded app_config_matching]
  note p = loaded_entries_match_a_filter [OF app_stateless app_plugins_listing,
      of "[''/app/plugins'']", unfolded app_plugins_matching]
  from c p m show ?thesis
    by (simp add: app_paths app_loads)
qed

text \<open>
  C6 as stated fails: in \<open>/app/plugins\<close> the entry \<open>mail.config.ts\<close> matches the
  filter (which has no flag) and is never loaded, because loading
  \<open>broken.config.ts\<close> before it throws and ends the call.
\<close>

theorem load_error_skips_a_matching_file:
  "stateless_filters (app_state [] [''/app/plugins''])
   \<and> readdirSync W_app (path_resolve W_app ''/app/plugins'')
       = Inr [''broken.config.ts'', ''mail.config.ts'']
   \<and> matches_some_filter W_app (app_state [] [''/app/plugins'']) ''mail.config.ts''
   \<and> filter is_require (effects (validateEnv W_app cfg_good (app_state [] [''/app/plugins''])))
       = [Require ''/app/plugins/broken.config.ts'']
   \<and> outcome (validateEnv W_app cfg_good (app_state [] [''/app/plugins'']))
       = Inl (ModuleLoadError ''SyntaxError: Unexpected token'')"
  by (simp add: validateEnv_def app_defs outcome_def effects_def stateless_filters_def
      matches_some_filter_def pattern_matches_def)

section \<open>Filters with the flag g\<close>

text \<open>
  \<open>passesConfigFileFilters\<close> calls \<open>test\<close> on the stored pattern objects. For a
  pattern with the flag \<open>g\<close> the call moves \<open>lastIndex\<close>, and the next call starts
  there: the answer for a file name depends on the names tested before it.
\<close>

text \<open>
  With the application's pattern carrying the flag \<open>g\<close>, \<open>db.config.ts\<close> is an entry
  of \<open>/app/config\<close> whose base name matches the filter, and it is not loaded: the
  test of \<open>auth.config.ts\<close> before it left \<open>lastIndex\<close> at 14, beyond the end of the
  name. The bag with \<open>DB_PORT = 80\<close> is accepted.
\<close>

theorem global_filter_skips_a_matching_file:
  "config_file_filters (app_state ''g'' [''/app/config'']) = [0]
   \<and> flags (regexps (app_state ''g'' [''/app/config'']) 0) = ''g''
   \<and> readdirSync W_app (path_resolve W_app ''/app/config'')
       = Inr [''auth.config.ts'', ''db.config.ts'', ''empty.config.ts'', ''readme.md'']
   \<and> matches_some_filter W_app (app_state ''g'' [''/app/config'']) ''db.config.ts''
   \<and> filter is_require (effects (validateEnv W_app cfg_low_port (app_state ''g'' [''/app/config''])))
       = [Require ''/app/config/auth.config.ts'', Require ''/app/config/empty.config.ts'']
   \<and> outcome (validateEnv W_app cfg_low_port (app_state ''g'' [''/app/config'']))
       = Inr cfg_low_port"
  by (simp add: validateEnv_def app_defs outcome_def effects_def cfg_low_port_def
      matches_some_filter_def pattern_matches_def)

text \<open>
  C8 on the code: with the same pattern and the path \<open>/app/services\<close>, the first call
  loads \<open>cache.config.ts\<close> and fails on its schema; it leaves \<open>lastIndex\<close> at 15, so
  the second call, on the same bag, paths, filters and files, selects no file and
  succeeds.
\<close>

theorem global_filter_second_call_differs:
  "outcome (validateEnv W_app cfg_good (app_state ''g'' [''/app/services'']))
     = Inl (Error ''Config validation error: PORT is required'')
   \<and> outcome (validateEnv W_app cfg_good
        (state_after (validateEnv W_app cfg_good (app_state ''g'' [''/app/services'']))))
     = Inr cfg_good
   \<and> config_file_filters (state_after (validateEnv W_app cfg_good (app_state ''g'' [''/app/services''])))
     = config_file_filters (app_state ''g'' [''/app/services''])
   \<and> resolution_paths (state_after (validateEnv W_app cfg_good (app_state ''g'' [''/app/services''])))
     = resolution_paths (app_state ''g'' [''/app/services''])
   \<and> lastIndex (regexps (state_after (validateEnv W_app cfg_good (app_state ''g'' [''/app/services'']))) 0)
     = 15"
  by (simp add: validateEnv_def app_defs outcome_def effects_def state_after_def cfg_good_def)

text \<open>
  The same call seen from the filter set: the set holds the same pattern object before
  and after, but the state is not the same, and the set no longer lets
  \<open>cache.config.ts\<close> pass.
\<close>

theorem global_filter_call_moves_the_cursor:
  "state_after (validateEnv W_app cfg_good (app_state ''g'' [''/app/services'']))
     \<noteq> app_state ''g'' [''/app/services'']
   \<and> fst (passesConfigFileFilters W_app ''cache.config.ts'' (app_state ''g'' [''/app/services'']))
   \<and> \<not> fst (passesConfigFileFilters W_app ''cache.config.ts''
          (state_after (validateEnv W_app cfg_good (app_state ''g'' [''/app/services'']))))"
proof -
  have cursor: "lastIndex (regexps
      (state_after (validateEnv W_app cfg_good (app_state ''g'' [''/app/services'']))) 0) = 15"
    by (simp add: validateEnv_def app_defs state_after_def cfg_good_def)
  have start: "lastIndex (regexps (app_state ''g'' [''/app/services'']) 0) = 0"
    by (simp add: app_state_def config_pattern_def)
  have differs: "state_after (validateEnv W_app cfg_good (app_state ''g'' [''/app/services'']))
                 \<noteq> app_state ''g'' [''/app/services'']"
    using cursor start by auto
  have before: "fst (passesConfigFileFilters W_app ''cache.config.ts''
                  (app_state ''g'' [''/app/services'']))"
    by (simp add: app_defs)
  have after: "\<not> fst (passesConfigFileFilters W_app ''cache.config.ts''
                  (state_after (validateEnv W_app cfg_good (app_state ''g'' [''/app/services'']))))"
    by (simp add: validateEnv_def app_defs state_after_def cfg_good_def)
  from differs before after show ?thesis
    by blast
qed

end
